theory Spec2Isabelle
  imports Main
begin

section \<open>Python string primitives used by \<open>main.py\<close>\<close>

text \<open>
  Strings are lists of 8-bit characters, read as the code points 0 to 255; a string with a
  code point from 256 on is outside the model.  Lengths count characters, as \<open>len\<close> does.
\<close>

datatype py_error = ValueError

text \<open>\<open>str.split(sep)\<close> with a one-character separator: always at least one part.\<close>

fun split_on :: "char \<Rightarrow> string \<Rightarrow> string list" where
  "split_on sep [] = [[]]"
| "split_on sep (c # cs) =
     (if c = sep then [] # split_on sep cs
      else (case split_on sep cs of
              [] \<Rightarrow> [[c]]
            | p # ps \<Rightarrow> (c # p) # ps))"

text \<open>
  \<open>str.strip()\<close> removes the characters for which \<open>str.isspace\<close> holds: below 256 these are
  TAB, LF, VT, FF, CR, the four separators FS, GS, RS, US, the blank, NEL (133) and the
  no-break space (160).
\<close>

definition is_py_space :: "char \<Rightarrow> bool" where
  "is_py_space c =
     ((9 \<le> (of_char c :: nat) \<and> (of_char c :: nat) \<le> 13)
      \<or> (28 \<le> (of_char c :: nat) \<and> (of_char c :: nat) \<le> 32)
      \<or> (of_char c :: nat) = 133 \<or> (of_char c :: nat) = 160)"

definition strip :: "string \<Rightarrow> string" where
  "strip s = rev (dropWhile is_py_space (rev (dropWhile is_py_space s)))"

text \<open>
  \<open>int(s)\<close> first turns every white-space character from 127 on into a blank (below 256:
  NEL and the no-break space) and leaves the characters below 127 as they are; then it
  skips the C white space (TAB, LF, VT, FF, CR, blank), reads an optional sign and a run of
  digits in which single underscores may separate digits, and skips C white space again.
  Anything else raises \<open>ValueError\<close>, and so does a run of more than
  \<open>sys.get_int_max_str_digits()\<close> digits, 4300 unless the operator changed it.
\<close>

definition max_str_digits :: nat where
  "max_str_digits = 4300"

definition is_c_space :: "char \<Rightarrow> bool" where
  "is_c_space c =
     ((9 \<le> (of_char c :: nat) \<and> (of_char c :: nat) \<le> 13) \<or> (of_char c :: nat) = 32)"

definition is_int_space :: "char \<Rightarrow> bool" where
  "is_int_space c = (is_c_space c \<or> (of_char c :: nat) = 133 \<or> (of_char c :: nat) = 160)"

definition is_digit :: "char \<Rightarrow> bool" where
  "is_digit c = (48 \<le> (of_char c :: nat) \<and> (of_char c :: nat) \<le> 57)"

definition digit_val :: "char \<Rightarrow> nat" where
  "digit_val c = of_char c - 48"

definition digits_val :: "string \<Rightarrow> nat" where
  "digits_val ds = foldl (\<lambda>a c. 10 * a + digit_val c) 0 ds"

fun double_underscore :: "string \<Rightarrow> bool" where
  "double_underscore (a # b # cs) =
     ((a = CHR ''_'' \<and> b = CHR ''_'') \<or> double_underscore (b # cs))"
| "double_underscore cs = False"

definition int_body :: "char \<Rightarrow> bool" where
  "int_body c = (is_digit c \<or> c = CHR ''_'')"

definition py_int :: "string \<Rightarrow> int option" where
  "py_int s =
     (let s1 = dropWhile is_int_space s;
          neg = (case s1 of [] \<Rightarrow> False | c # r \<Rightarrow> c = CHR ''-'');
          s2 = (case s1 of [] \<Rightarrow> []
                | c # r \<Rightarrow> if c = CHR ''+'' \<or> c = CHR ''-'' then r else s1);
          body = takeWhile int_body s2;
          rest = dropWhile int_body s2
      in if body = [] \<or> hd body = CHR ''_'' \<or> last body = CHR ''_''
            \<or> double_underscore body \<or> \<not> list_all is_int_space rest
            \<or> max_str_digits < length (filter is_digit body)
         then None
         else Some ((if neg then - 1 else 1) * int (digits_val (filter is_digit body))))"

text \<open>\<open>str(n)\<close> for a natural number, and for any integer.\<close>

fun str_nat :: "nat \<Rightarrow> string" where
  "str_nat n =
     (if n < 10 then [char_of (48 + n)]
      else str_nat (n div 10) @ [char_of (48 + n mod 10)])"

declare str_nat.simps [simp del]

definition str_int :: "int \<Rightarrow> string" where
  "str_int i = (if i < 0 then CHR ''-'' # str_nat (nat (- i)) else str_nat (nat i))"

text \<open>
  The text of the format specification \<open>:02d\<close>: the decimal rendering, filled with a zero
  after the sign up to a total width of two.  A negative number already has width two.
\<close>

definition fmt_02d :: "int \<Rightarrow> string" where
  "fmt_02d i =
     (if i < 0 then str_int i
      else if i < 10 then CHR ''0'' # str_int i
      else str_int i)"

text \<open>
  Turning an integer into text (\<open>str\<close>, an f-string field, \<open>:02d\<close>) raises
  \<open>ValueError\<close> when the integer has more than \<open>max_str_digits\<close> decimal digits.
\<close>

definition too_long :: "int \<Rightarrow> bool" where
  "too_long i = (max_str_digits < length (str_nat (nat \<bar>i\<bar>)))"

definition py_fmt_02d :: "int \<Rightarrow> py_error + string" where
  "py_fmt_02d i = (if too_long i then Inl ValueError else Inr (fmt_02d i))"

section \<open>Time parser\<close>

text \<open>
  The inner function \<open>time_to_seconds\<close> of \<open>parse_time_range\<close>.  Every \<open>int(...)\<close> of a
  branch is evaluated, left to right, and the first failure raises.
\<close>

definition time_to_seconds :: "string \<Rightarrow> py_error + int" where
  "time_to_seconds time_str =
     (let parts = split_on CHR '':'' time_str in
      if length parts = 2 then
        (case (py_int (parts ! 0), py_int (parts ! 1)) of
           (Some m, Some s) \<Rightarrow> Inr (m * 60 + s)
         | _ \<Rightarrow> Inl ValueError)
      else if length parts = 3 then
        (case (py_int (parts ! 0), py_int (parts ! 1), py_int (parts ! 2)) of
           (Some h, Some m, Some s) \<Rightarrow> Inr (h * 3600 + m * 60 + s)
         | _ \<Rightarrow> Inl ValueError)
      else
        (case py_int (parts ! 0) of
           Some s \<Rightarrow> Inr s
         | None \<Rightarrow> Inl ValueError))"

text \<open>
  \<open>start, end = time_str.split('-')\<close> raises \<open>ValueError\<close> unless there are exactly two
  parts.
\<close>

definition parse_time_range :: "string \<Rightarrow> py_error + (int \<times> int)" where
  "parse_time_range time_str =
     (case split_on CHR ''-'' time_str of
        [start, end] \<Rightarrow>
          (case time_to_seconds (strip start) of
             Inl e \<Rightarrow> Inl e
           | Inr a \<Rightarrow>
               (case time_to_seconds (strip end) of
                  Inl e \<Rightarrow> Inl e
                | Inr b \<Rightarrow> Inr (a, b)))
      | _ \<Rightarrow> Inl ValueError)"

text \<open>
  \<open>format_time\<close> in two layers: the text it returns, and the function with the failure of
  the interpreter when a field has too many digits.  The fields of an f-string are
  rendered from left to right.
\<close>

definition format_time :: "int \<Rightarrow> string" where
  "format_time seconds =
     (let hours = seconds div 3600;
          minutes = (seconds mod 3600) div 60;
          secs = seconds mod 60
      in if hours > 0
         then fmt_02d hours @ '':'' @ fmt_02d minutes @ '':'' @ fmt_02d secs
         else fmt_02d minutes @ '':'' @ fmt_02d secs)"

definition format_time_limited :: "int \<Rightarrow> py_error + string" where
  "format_time_limited seconds =
     (let hours = seconds div 3600;
          minutes = (seconds mod 3600) div 60;
          secs = seconds mod 60
      in if hours > 0 then
           (case (py_fmt_02d hours, py_fmt_02d minutes, py_fmt_02d secs) of
              (Inr h, Inr m, Inr s) \<Rightarrow> Inr (h @ '':'' @ m @ '':'' @ s)
            | _ \<Rightarrow> Inl ValueError)
         else
           (case (py_fmt_02d minutes, py_fmt_02d secs) of
              (Inr m, Inr s) \<Rightarrow> Inr (m @ '':'' @ s)
            | _ \<Rightarrow> Inl ValueError))"

section \<open>Header rows\<close>

text \<open>
  \<open>str.lower()\<close> on code points below 256 (the capital letters of ASCII and of Latin-1,
  the multiplication sign apart), and the substring test \<open>p in s\<close>.
\<close>

definition lower_char :: "char \<Rightarrow> char" where
  "lower_char c =
     (if (65 \<le> (of_char c :: nat) \<and> (of_char c :: nat) \<le> 90)
         \<or> (192 \<le> (of_char c :: nat) \<and> (of_char c :: nat) \<le> 222 \<and> (of_char c :: nat) \<noteq> 215)
      then char_of ((of_char c :: nat) + 32) else c)"

definition lower :: "string \<Rightarrow> string" where
  "lower s = map lower_char s"

fun sub_in :: "string \<Rightarrow> string \<Rightarrow> bool" where
  "sub_in p [] = (p = [])"
| "sub_in p (c # cs) = (take (length p) (c # cs) = p \<or> sub_in p cs)"

text \<open>
  \<open>re.search(r'\(([^)]+)\)', header)\<close>: the leftmost opening parenthesis that is followed
  by at least one character other than a closing parenthesis and then by a closing
  parenthesis; group 1 is the text between them.
\<close>

fun extract_prefix_from_header :: "string \<Rightarrow> string option" where
  "extract_prefix_from_header [] = None"
| "extract_prefix_from_header (c # cs) =
     (if c = CHR ''(''
         \<and> takeWhile (\<lambda>x. x \<noteq> CHR '')'') cs \<noteq> []
         \<and> dropWhile (\<lambda>x. x \<noteq> CHR '')'') cs \<noteq> []
      then Some (takeWhile (\<lambda>x. x \<noteq> CHR '')'') cs)
      else extract_prefix_from_header cs)"

text \<open>Truth value of an optional string: \<open>None\<close> and the empty string are false.\<close>

definition truthy :: "string option \<Rightarrow> bool" where
  "truthy v = (case v of None \<Rightarrow> False | Some s \<Rightarrow> s \<noteq> [])"

section \<open>The world: files, external tools, and what the program does to them\<close>

text \<open>
  A \<open>Path\<close> is the list of its components and \<open>str(path)\<close> joins them with a slash; the
  normalisation that \<open>pathlib\<close> applies to a component which itself holds separators is not
  modelled, paths only serve as keys of the file table.
\<close>

type_synonym path = "string list"

fun path_str :: "path \<Rightarrow> string" where
  "path_str [] = ''.''"
| "path_str [a] = a"
| "path_str (a # b # r) = a @ ''/'' @ path_str (b # r)"

definition path_parent :: "path \<Rightarrow> path" where
  "path_parent p = butlast p"

definition path_name :: "path \<Rightarrow> string" where
  "path_name p = (if p = [] then [] else last p)"

text \<open>
  The file table maps the string of every existing path to its \<open>st_size\<close>.  The two
  external programs are one function: given the command line, the state of everything
  outside the machine and the file table, it yields how \<open>subprocess.run(..., check=True)\<close>
  ends and the new outside state and file table.  A program that cannot be started at all
  is outside the model.
\<close>

type_synonym fs = "string \<rightharpoonup> nat"

datatype proc_result =
    Completed
  | CalledProcessError (err_stderr: string) (err_stdout: string) (err_str: string)

type_synonym 'e tool = "string list \<Rightarrow> 'e \<Rightarrow> fs \<Rightarrow> proc_result \<times> 'e \<times> fs"

record job =
  job_prefix :: string
  job_video_id :: string
  job_seg_num :: nat
  job_start :: int
  job_end :: int
  job_output_path :: path
  job_cookies :: "string option"

text \<open>What the program prints, one constructor for each \<open>print\<close> of the source.\<close>

datatype message =
    MsgDownloading nat
  | MsgDownloadedTemp string nat
  | MsgMethodFailed nat
  | MsgErrorDownloading string
  | MsgError string
  | MsgTipUpdate
  | MsgTipCookies
  | MsgDownloadFailed string
  | MsgTrimming string int
  | MsgDownloaded string
  | MsgErrorTrimming string
  | MsgCookiesRequired
  | MsgUsingCookiesFile string
  | MsgUsingBrowserCookies
  | MsgProcessingPrefix string
  | MsgOutputFolder string
  | MsgSkippingInvalidId string nat
  | MsgProcessing string string
  | MsgStartEnd int int
  | MsgOutput string

datatype event =
    Print message
  | Run "string list"
  | Unlink string
  | Mkdir string
  | Open_csv
  | Read_row "string list"
  | Call_download job

record 'e world =
  files :: fs
  ext :: 'e
  trace :: "event list"

definition emit :: "event \<Rightarrow> 'e world \<Rightarrow> 'e world" where
  "emit ev w = w\<lparr>trace := trace w @ [ev]\<rparr>"

definition print :: "message \<Rightarrow> 'e world \<Rightarrow> 'e world" where
  "print m w = emit (Print m) w"

definition path_exists :: "'e world \<Rightarrow> path \<Rightarrow> bool" where
  "path_exists w p = (files w (path_str p) \<noteq> None)"

definition st_size :: "'e world \<Rightarrow> path \<Rightarrow> nat" where
  "st_size w p = (case files w (path_str p) of None \<Rightarrow> 0 | Some n \<Rightarrow> n)"

definition unlink :: "path \<Rightarrow> 'e world \<Rightarrow> 'e world" where
  "unlink p w = emit (Unlink (path_str p)) (w\<lparr>files := (files w)(path_str p := None)\<rparr>)"

definition unlink_if_exists :: "path \<Rightarrow> 'e world \<Rightarrow> 'e world" where
  "unlink_if_exists p w = (if path_exists w p then unlink p w else w)"

text \<open>
  Directory creation is recorded only: it is a primitive outside the file table and is
  taken to succeed.  A failure of the operating system (a directory that cannot be
  created, a manifest that cannot be opened or decoded, an output stream that cannot be
  written) is outside the model, like a program that cannot be started.
\<close>

definition mkdir :: "path \<Rightarrow> 'e world \<Rightarrow> 'e world" where
  "mkdir p w = emit (Mkdir (path_str p)) w"

definition subprocess_run :: "'e tool \<Rightarrow> string list \<Rightarrow> 'e world \<Rightarrow> proc_result \<times> 'e world" where
  "subprocess_run T cmd w =
     (case T cmd (ext w) (files w) of
        (r, e', f') \<Rightarrow> (r, emit (Run cmd) (w\<lparr>files := f', ext := e'\<rparr>)))"

section \<open>Segment acquirer\<close>

definition cookie_method :: "string \<Rightarrow> string \<Rightarrow> string \<Rightarrow> string list" where
  "cookie_method cookies_file temp url =
     [''yt-dlp'', ''-i'', ''--extract-audio'', ''--audio-format'', ''wav'',
      ''--audio-quality'', ''0'', ''--ffmpeg-location'', ''/opt/homebrew/bin'',
      ''--cookies'', cookies_file, ''--output'', temp, url]"

definition browser_method :: "string \<Rightarrow> string \<Rightarrow> string \<Rightarrow> string list" where
  "browser_method browser temp url =
     [''yt-dlp'', ''-i'', ''--extract-audio'', ''--audio-format'', ''wav'',
      ''--audio-quality'', ''0'', ''--ffmpeg-location'', ''/opt/homebrew/bin'',
      ''--cookies-from-browser'', browser, ''--output'', temp, url]"

definition browsers :: "string list" where
  "browsers = [''chrome'', ''safari'', ''firefox'']"

text \<open>
  The argument \<open>cookies_file\<close> is a string or \<open>None\<close>; \<open>Path(cookies_file).exists()\<close> looks
  the string up as it is.
\<close>

definition download_methods :: "'e world \<Rightarrow> string option \<Rightarrow> string \<Rightarrow> string \<Rightarrow> string list list" where
  "download_methods w cookies_file temp url =
     (case cookies_file of
        None \<Rightarrow> []
      | Some c \<Rightarrow> if c \<noteq> [] \<and> files w c \<noteq> None then [cookie_method c temp url] else [])
     @ map (\<lambda>browser. browser_method browser temp url) browsers"

definition trim_cmd :: "string \<Rightarrow> string \<Rightarrow> int \<Rightarrow> string \<Rightarrow> string list" where
  "trim_cmd temp start_time_str duration out =
     [''/opt/homebrew/bin/ffmpeg'', ''-i'', temp, ''-ss'', start_time_str,
      ''-t'', str_int duration, ''-acodec'', ''pcm_s16le'', ''-ar'', ''44100'',
      ''-ac'', ''2'', ''-y'', out]"

text \<open>\<open>e.stderr if e.stderr else e.stdout if e.stdout else other\<close>.\<close>

definition error_text :: "string \<Rightarrow> string \<Rightarrow> string \<Rightarrow> string" where
  "error_text se so other = (if se \<noteq> [] then se else if so \<noteq> [] then so else other)"

text \<open>The branch of the loop taken when the last method has left no artifact.\<close>

definition report_exhausted :: "string \<Rightarrow> path \<Rightarrow> string option \<Rightarrow> 'e world \<Rightarrow> 'e world" where
  "report_exhausted video_id temp_path last_error w =
     (let w1 = print (MsgErrorDownloading video_id) w;
          w2 = (case last_error of
                  None \<Rightarrow> w1
                | Some le \<Rightarrow> if le \<noteq> [] then print (MsgError le) w1 else w1);
          w3 = (case last_error of
                  None \<Rightarrow> w2
                | Some le \<Rightarrow>
                    if le \<noteq> [] \<and> (sub_in ''403'' le \<or> sub_in ''Forbidden'' le)
                    then print MsgTipUpdate w2 else w2);
          w4 = (case last_error of
                  None \<Rightarrow> w3
                | Some le \<Rightarrow>
                    if le \<noteq> [] \<and> (sub_in ''bot'' (lower le) \<or> sub_in ''cookies'' (lower le))
                    then print MsgTipCookies w3 else w3)
      in unlink_if_exists temp_path w4)"

datatype loop_exit = Broke | Returned bool | Fell_through

text \<open>
  The \<open>for i, download_cmd in enumerate(download_methods, 1)\<close> loop.  \<open>n\<close> is
  \<open>len(download_methods)\<close>, \<open>i\<close> the running index; the loop ends by \<open>break\<close>, by
  \<open>return False\<close>, or by running out of methods.
\<close>

fun try_methods ::
  "'e tool \<Rightarrow> string \<Rightarrow> path \<Rightarrow> nat \<Rightarrow> nat \<Rightarrow> string option \<Rightarrow> string list list
     \<Rightarrow> 'e world \<Rightarrow> loop_exit \<times> 'e world" where
  "try_methods T video_id temp_path n i last_error [] w = (Fell_through, w)"
| "try_methods T video_id temp_path n i last_error (download_cmd # rest) w =
     (case subprocess_run T download_cmd (print (MsgDownloading i) w) of
        (r, w2) \<Rightarrow>
          (let last_error' =
                 (case r of
                    Completed \<Rightarrow> last_error
                  | CalledProcessError se so other \<Rightarrow> Some (error_text se so other))
           in if path_exists w2 temp_path \<and> 0 < st_size w2 temp_path then
                (Broke, print (MsgDownloadedTemp (path_name temp_path) (st_size w2 temp_path)) w2)
              else if i < n then
                try_methods T video_id temp_path n (i + 1) last_error' rest
                  (print (MsgMethodFailed i) w2)
              else
                (Returned False, report_exhausted video_id temp_path last_error' w2)))"

text \<open>
  The acquirer renders \<open>start_time\<close> and \<open>duration\<close>.  \<open>main\<close> has printed \<open>start_time\<close>
  and \<open>end_time\<close> before it calls, neither is negative, so both renderings exist for
  every call that \<open>main\<close> makes; here they are taken as total.
\<close>

definition download_youtube_segment ::
  "'e tool \<Rightarrow> string \<Rightarrow> int \<Rightarrow> int \<Rightarrow> path \<Rightarrow> string option \<Rightarrow> 'e world \<Rightarrow> bool \<times> 'e world" where
  "download_youtube_segment T video_id start_time end_time output_path cookies_file w =
     (let url = ''https://www.youtube.com/watch?v='' @ video_id;
          duration = end_time - start_time;
          start_time_str = format_time start_time;
          temp_dir = path_parent output_path;
          temp_path = temp_dir @ [''temp_'' @ video_id @ ''.wav''];
          methods = download_methods w cookies_file (path_str temp_path) url
      in case try_methods T video_id temp_path (length methods) 1 None methods w of
           (Returned b, w1) \<Rightarrow> (b, w1)
         | (_, w1) \<Rightarrow>
             if \<not> path_exists w1 temp_path \<or> st_size w1 temp_path = 0 then
               (False, unlink_if_exists temp_path (print (MsgDownloadFailed video_id) w1))
             else
               (case subprocess_run T
                       (trim_cmd (path_str temp_path) start_time_str duration (path_str output_path))
                       (print (MsgTrimming start_time_str duration) w1) of
                  (Completed, w3) \<Rightarrow>
                    (True, print (MsgDownloaded (path_str output_path))
                             (unlink_if_exists temp_path w3))
                | (CalledProcessError se so other, w3) \<Rightarrow>
                    (False, unlink_if_exists temp_path
                              (print (MsgError (error_text se so ''Unknown error''))
                                 (print (MsgErrorTrimming video_id) w3)))))"

section \<open>Run orchestrator\<close>

definition base_dir :: path where
  "base_dir = [''/Users/ndesai-air/Documents/GitHub/ling320'']"

definition wav_dir :: path where
  "wav_dir = base_dir @ [''wav'']"

definition cookies_file :: path where
  "cookies_file = base_dir @ [''cookies.txt'']"

text \<open>\<open>home\<close> is what \<open>os.path.expanduser("~")\<close> returns.\<close>

definition all_browser_paths :: "string \<Rightarrow> path list" where
  "all_browser_paths home =
     [[home, ''.config'', ''google-chrome''],
      [home, ''Library'', ''Application Support'', ''Google'', ''Chrome'']]
     @ [[home, ''Library'', ''Cookies'']]
     @ [[home, ''.mozilla'', ''firefox''],
        [home, ''Library'', ''Application Support'', ''Firefox'']]"

record reader_state =
  prefix :: "string option"
  output_folder :: "path option"
  video_id_counts :: "string \<rightharpoonup> nat"

definition initial_state :: reader_state where
  "initial_state = \<lparr>prefix = None, output_folder = None, video_id_counts = Map.empty\<rparr>"

definition is_header_row :: "string list \<Rightarrow> bool" where
  "is_header_row row = (0 < length row \<and> sub_in ''id ('' (lower (row ! 0)))"

text \<open>
  One iteration of \<open>for row in reader\<close>.  The result is the reader state for the next row,
  or the exception that leaves the loop: nothing in \<open>main\<close> catches it.  Two things raise:
  the parsing of the time range, and the \<open>print\<close> of line 268, which renders \<open>start_time\<close>
  and \<open>end_time\<close> and fails on an integer with too many digits.  The segment number is
  smaller than the number of rows read, so its rendering in the file name is taken as
  total.
\<close>

definition process_row ::
  "'e tool \<Rightarrow> bool \<Rightarrow> reader_state \<Rightarrow> string list \<Rightarrow> 'e world
     \<Rightarrow> (py_error + reader_state) \<times> 'e world" where
  "process_row T has_cookies_file st row w =
     (if is_header_row row then
        (let pfx = extract_prefix_from_header (row ! 0);
             st1 = st\<lparr>prefix := pfx\<rparr>
         in case pfx of
              None \<Rightarrow> (Inr st1, w)
            | Some p \<Rightarrow>
                if p \<noteq> [] then
                  (Inr (st1\<lparr>output_folder := Some (wav_dir @ [p]), video_id_counts := Map.empty\<rparr>),
                   print (MsgOutputFolder (path_str (wav_dir @ [p])))
                     (mkdir (wav_dir @ [p]) (print (MsgProcessingPrefix p) w)))
                else (Inr st1, w))
      else if length row < 2 then (Inr st, w)
      else if \<not> truthy (prefix st) \<or> output_folder st = None then (Inr st, w)
      else
        (let video_id = strip (row ! 0);
             time_range = strip (row ! 1)
         in if video_id = [] \<or> time_range = [] then (Inr st, w)
            else if length video_id \<noteq> 11 then
              (Inr st, print (MsgSkippingInvalidId video_id (length video_id)) w)
            else
              (case parse_time_range time_range of
                 Inl e \<Rightarrow> (Inl e, w)
               | Inr (start_time, end_time) \<Rightarrow>
                   (let counts = (case video_id_counts st video_id of
                                    Some c \<Rightarrow> (video_id_counts st)(video_id \<mapsto> c + 1)
                                  | None \<Rightarrow> (video_id_counts st)(video_id \<mapsto> 0));
                        seg_num = (case counts video_id of Some c \<Rightarrow> c | None \<Rightarrow> 0);
                        pfx = (case prefix st of Some p \<Rightarrow> p | None \<Rightarrow> []);
                        folder = (case output_folder st of Some d \<Rightarrow> d | None \<Rightarrow> []);
                        output_filename =
                          pfx @ ''-'' @ video_id @ ''_seg'' @ str_nat seg_num @ ''.wav'';
                        output_path = folder @ [output_filename];
                        w0 = print (MsgProcessing video_id time_range) w
                    in if too_long start_time \<or> too_long end_time then (Inl ValueError, w0)
                       else
                         (let w1 = print (MsgOutput (path_str output_path))
                                     (print (MsgStartEnd start_time end_time) w0);
                              cookies_file_path =
                                (if has_cookies_file then Some (path_str cookies_file) else None);
                              w2 = emit (Call_download
                                           \<lparr>job_prefix = pfx, job_video_id = video_id,
                                            job_seg_num = seg_num, job_start = start_time,
                                            job_end = end_time, job_output_path = output_path,
                                            job_cookies = cookies_file_path\<rparr>) w1
                          in case download_youtube_segment T video_id start_time end_time
                                    output_path cookies_file_path w2 of
                               (ok, w3) \<Rightarrow> (Inr (st\<lparr>video_id_counts := counts\<rparr>), w3))))))"

datatype exit_status = Exit_ok | Sys_exit nat | Uncaught py_error

fun process_rows ::
  "'e tool \<Rightarrow> bool \<Rightarrow> reader_state \<Rightarrow> string list list \<Rightarrow> 'e world
     \<Rightarrow> exit_status \<times> reader_state \<times> 'e world" where
  "process_rows T has_cookies_file st [] w = (Exit_ok, st, w)"
| "process_rows T has_cookies_file st (row # rows) w =
     (case process_row T has_cookies_file st row (emit (Read_row row) w) of
        (Inl e, w') \<Rightarrow> (Uncaught e, st, w')
      | (Inr st', w') \<Rightarrow> process_rows T has_cookies_file st' rows w')"

text \<open>
  \<open>main\<close>, for the rows that \<open>csv.reader\<close> delivers from the manifest.  The credential
  check comes first; \<open>sys.exit(1)\<close> ends the run there.
\<close>

definition main ::
  "'e tool \<Rightarrow> string \<Rightarrow> string list list \<Rightarrow> 'e world \<Rightarrow> exit_status \<times> 'e world" where
  "main T home rows w =
     (let w0 = mkdir wav_dir w;
          has_cookies_file = path_exists w0 cookies_file;
          has_browser_cookies =
            (if \<not> has_cookies_file then list_ex (path_exists w0) (all_browser_paths home)
             else False)
      in if \<not> has_cookies_file \<and> \<not> has_browser_cookies then
           (Sys_exit 1, print MsgCookiesRequired w0)
         else
           (let w1 = (if has_cookies_file
                      then print (MsgUsingCookiesFile (path_str cookies_file)) w0
                      else print MsgUsingBrowserCookies w0)
            in case process_rows T has_cookies_file initial_state rows (emit Open_csv w1) of
                 (ex, st, w2) \<Rightarrow> (ex, w2)))"

section \<open>Reading a trace\<close>

text \<open>The commands run, the jobs handed to the acquirer, and the rows read, in order.\<close>

fun runs_of :: "event list \<Rightarrow> string list list" where
  "runs_of [] = []"
| "runs_of (Run c # es) = c # runs_of es"
| "runs_of (ev # es) = runs_of es"

fun jobs_of :: "event list \<Rightarrow> job list" where
  "jobs_of [] = []"
| "jobs_of (Call_download j # es) = j # jobs_of es"
| "jobs_of (ev # es) = jobs_of es"

fun rows_read :: "event list \<Rightarrow> string list list" where
  "rows_read [] = []"
| "rows_read (Read_row r # es) = r # rows_read es"
| "rows_read (ev # es) = rows_read es"

text \<open>The three messages by which \<open>main\<close> reports the outcome of the credential check.\<close>

fun is_auth_report :: "event \<Rightarrow> bool" where
  "is_auth_report (Print MsgCookiesRequired) = True"
| "is_auth_report (Print (MsgUsingCookiesFile p)) = True"
| "is_auth_report (Print MsgUsingBrowserCookies) = True"
| "is_auth_report ev = False"

text \<open>The events the acquirer itself can add to a trace.\<close>

fun is_acquirer_event :: "event \<Rightarrow> bool" where
  "is_acquirer_event (Print m) = (\<not> is_auth_report (Print m))"
| "is_acquirer_event (Run c) = True"
| "is_acquirer_event (Unlink p) = True"
| "is_acquirer_event ev = False"

definition is_transcode :: "string list \<Rightarrow> bool" where
  "is_transcode cmd = (cmd \<noteq> [] \<and> hd cmd = ''/opt/homebrew/bin/ffmpeg'')"

definition temp_path_of :: "path \<Rightarrow> string \<Rightarrow> path" where
  "temp_path_of output_path video_id = path_parent output_path @ [''temp_'' @ video_id @ ''.wav'']"

definition url_of :: "string \<Rightarrow> string" where
  "url_of video_id = ''https://www.youtube.com/watch?v='' @ video_id"

section \<open>The fetch strategy in the words of the specification\<close>

text \<open>
  The file tables that the fetch attempts would leave, one after the other, if every
  method of the list were tried in order; the exit status of the tool is dropped.
\<close>

fun fetch_states :: "'e tool \<Rightarrow> string list list \<Rightarrow> 'e \<Rightarrow> fs \<Rightarrow> ('e \<times> fs) list" where
  "fetch_states T [] e f = []"
| "fetch_states T (c # cs) e f =
     snd (T c e f) # fetch_states T cs (fst (snd (T c e f))) (snd (snd (T c e f)))"

text \<open>A non-empty temporary artifact exists.\<close>

definition has_artifact :: "string \<Rightarrow> 'e \<times> fs \<Rightarrow> bool" where
  "has_artifact temp s = (case snd s temp of None \<Rightarrow> False | Some n \<Rightarrow> 0 < n)"

text \<open>The number of attempts that leave no such artifact before the first that does.\<close>

definition failed_before :: "'e tool \<Rightarrow> string \<Rightarrow> string list list \<Rightarrow> 'e \<Rightarrow> fs \<Rightarrow> nat" where
  "failed_before T temp ms e f =
     length (takeWhile (\<lambda>s. \<not> has_artifact temp s) (fetch_states T ms e f))"

text \<open>The dictionary update of \<open>main\<close>, lines 256 to 261, and the index a reference gets next.\<close>

definition next_index :: "(string \<rightharpoonup> nat) \<Rightarrow> string \<Rightarrow> nat" where
  "next_index counts video_id = (case counts video_id of None \<Rightarrow> 0 | Some c \<Rightarrow> c + 1)"

definition new_events :: "'e world \<Rightarrow> 'f world \<Rightarrow> event list" where
  "new_events w w' = drop (length (trace w)) (trace w')"

text \<open>
  The same tool with its exit statuses replaced: \<open>g\<close> chooses how each command ends, what
  the tool does to the outside state and to the files stays as it is.
\<close>

definition restatus :: "(string list \<Rightarrow> proc_result) \<Rightarrow> 'e tool \<Rightarrow> 'e tool" where
  "restatus g T cmd e f = (if is_transcode cmd then fst (T cmd e f) else g cmd, snd (T cmd e f))"

section \<open>Tools and worlds for the examples\<close>

text \<open>A fetch tool that fails with a rate-limit message and writes nothing.\<close>

definition tool_nothing :: "unit tool" where
  "tool_nothing cmd e f = (CalledProcessError ''ERROR: HTTP Error 403: Forbidden'' [] ''exit 1'', e, f)"

text \<open>
  A fetch tool that always ends with a non-zero status, and leaves a 100-byte artifact at
  the \<open>--output\<close> path when asked for the cookies of the second browser; the transcode
  tool writes the output file and succeeds.
\<close>

definition tool_tolerant :: "unit tool" where
  "tool_tolerant cmd e f =
     (if hd cmd = ''yt-dlp'' then
        (if cmd ! 10 = ''safari''
         then (CalledProcessError ''WARNING: partial'' [] ''exit 1'', e, f(cmd ! 12 \<mapsto> 100))
         else (CalledProcessError ''ERROR: no cookies'' [] ''exit 1'', e, f))
      else (Completed, e, f(last cmd \<mapsto> 50)))"

text \<open>
  A tool whose outside state counts the fetch calls: the first three fetches write
  nothing, every later one writes the artifact; the transcode tool writes the output.
\<close>

definition tool_late :: "nat tool" where
  "tool_late cmd e f =
     (if hd cmd = ''yt-dlp'' then
        (if e < 3 then (CalledProcessError ''ERROR: bot check'' [] ''exit 1'', e + 1, f)
         else (Completed, e + 1, f(cmd ! 12 \<mapsto> 100)))
      else (Completed, e, f(last cmd \<mapsto> 50)))"

definition world_cookies :: "unit world" where
  "world_cookies = \<lparr>files = [path_str cookies_file \<mapsto> 10], ext = (), trace = []\<rparr>"

definition world_browser :: "nat world" where
  "world_browser =
     \<lparr>files = [''/home/u/.mozilla/firefox'' \<mapsto> 4096], ext = 0, trace = []\<rparr>"

definition world_bare :: "unit world" where
  "world_bare = \<lparr>files = Map.empty, ext = (), trace = []\<rparr>"

definition example_out :: path where
  "example_out = wav_dir @ [''SC'', ''SC-abcdefghijk_seg0.wav'']"

text \<open>A reader state inside category \<open>A\<close>, in which one reference has reached index 1.\<close>

definition state_A :: reader_state where
  "state_A = \<lparr>prefix = Some ''A'', output_folder = Some (wav_dir @ [''A'']),
              video_id_counts = [''abcdefghijk'' \<mapsto> 1]\<rparr>"

section \<open>Rows and runs, apart from the world\<close>

text \<open>
  A data row that passes every check of the loop body before the time range is parsed,
  and a reader state with an active category.
\<close>

definition data_row_ok :: "string list \<Rightarrow> bool" where
  "data_row_ok row =
     (\<not> is_header_row row \<and> 2 \<le> length row \<and> strip (row ! 0) \<noteq> [] \<and> strip (row ! 1) \<noteq> []
      \<and> length (strip (row ! 0)) = 11)"

definition active :: "reader_state \<Rightarrow> bool" where
  "active st = (truthy (prefix st) \<and> output_folder st \<noteq> None)"

text \<open>
  The start and end of a data row, or the \<open>ValueError\<close> the row raises: when its time
  range does not parse, and when the start or the end has too many digits to be printed.
\<close>

definition row_times :: "string list \<Rightarrow> py_error + (int \<times> int)" where
  "row_times row =
     (case parse_time_range (strip (row ! 1)) of
        Inl e \<Rightarrow> Inl e
      | Inr (a, b) \<Rightarrow> if too_long a \<or> too_long b then Inl ValueError else Inr (a, b))"

text \<open>The arguments of the call of the acquirer for a data row, as \<open>main\<close> computes them.\<close>

definition row_job :: "bool \<Rightarrow> reader_state \<Rightarrow> string list \<Rightarrow> int \<Rightarrow> int \<Rightarrow> job" where
  "row_job has_cookies_file st row start_time end_time =
     \<lparr>job_prefix = (case prefix st of Some p \<Rightarrow> p | None \<Rightarrow> []),
      job_video_id = strip (row ! 0),
      job_seg_num = next_index (video_id_counts st) (strip (row ! 0)),
      job_start = start_time,
      job_end = end_time,
      job_output_path =
        (case output_folder st of Some d \<Rightarrow> d | None \<Rightarrow> [])
        @ [(case prefix st of Some p \<Rightarrow> p | None \<Rightarrow> []) @ ''-'' @ strip (row ! 0) @ ''_seg''
           @ str_nat (next_index (video_id_counts st) (strip (row ! 0))) @ ''.wav''],
      job_cookies = (if has_cookies_file then Some (path_str cookies_file) else None)\<rparr>"

text \<open>
  What a row does to the reader state and which job it yields, read off a run of the
  loop body with a tool that does nothing in an empty world.  The lemmas below show that
  every tool and every world give the same.
\<close>

definition dry_tool :: "unit tool" where
  "dry_tool cmd e f = (Completed, e, f)"

definition dry_world :: "unit world" where
  "dry_world = \<lparr>files = Map.empty, ext = (), trace = []\<rparr>"

definition row_step :: "reader_state \<Rightarrow> string list \<Rightarrow> py_error + reader_state" where
  "row_step st row = fst (process_row dry_tool False st row dry_world)"

definition row_jobs :: "bool \<Rightarrow> reader_state \<Rightarrow> string list \<Rightarrow> job list" where
  "row_jobs has_cookies_file st row =
     jobs_of (trace (snd (process_row dry_tool has_cookies_file st row dry_world)))"

fun plan_exit :: "reader_state \<Rightarrow> string list list \<Rightarrow> exit_status" where
  "plan_exit st [] = Exit_ok"
| "plan_exit st (row # rows) =
     (case row_step st row of Inl e \<Rightarrow> Uncaught e | Inr st' \<Rightarrow> plan_exit st' rows)"

fun plan_state :: "reader_state \<Rightarrow> string list list \<Rightarrow> reader_state" where
  "plan_state st [] = st"
| "plan_state st (row # rows) =
     (case row_step st row of Inl e \<Rightarrow> st | Inr st' \<Rightarrow> plan_state st' rows)"

fun plan_jobs :: "bool \<Rightarrow> reader_state \<Rightarrow> string list list \<Rightarrow> job list" where
  "plan_jobs hc st [] = []"
| "plan_jobs hc st (row # rows) =
     (case row_step st row of
        Inl e \<Rightarrow> []
      | Inr st' \<Rightarrow> row_jobs hc st row @ plan_jobs hc st' rows)"

fun plan_read :: "reader_state \<Rightarrow> string list list \<Rightarrow> nat" where
  "plan_read st [] = 0"
| "plan_read st (row # rows) =
     (case row_step st row of Inl e \<Rightarrow> 1 | Inr st' \<Rightarrow> Suc (plan_read st' rows))"

text \<open>Whether a credential source is found by the check at the start of \<open>main\<close>.\<close>

definition has_auth :: "string \<Rightarrow> 'e world \<Rightarrow> bool" where
  "has_auth home w =
     (path_exists w cookies_file \<or> list_ex (path_exists w) (all_browser_paths home))"

section \<open>Lemmas about splitting, rendering and reading numbers\<close>

lemma split_on_nonempty: "split_on sep s \<noteq> []"
  by (induction s) (auto split: list.splits)

lemma split_on_no_sep: "sep \<notin> set a \<Longrightarrow> split_on sep (a @ sep # b) = a # split_on sep b"
  by (induction a) (auto split: list.splits)

lemma split_on_none: "sep \<notin> set a \<Longrightarrow> split_on sep a = [a]"
  by (induction a) (auto split: list.splits)

lemma is_digit_char_of: "(d::nat) < 10 \<Longrightarrow> is_digit (char_of (48 + d))"
  by (simp add: is_digit_def)

lemma digit_val_char_of: "(d::nat) < 10 \<Longrightarrow> digit_val (char_of (48 + d)) = d"
  by (simp add: digit_val_def)

lemma str_nat_digits: "list_all is_digit (str_nat n)"
proof (induction n rule: str_nat.induct)
  case (1 n)
  show ?case
  proof (cases "n < 10")
    case True
    then show ?thesis by (simp add: str_nat.simps [of n] is_digit_char_of)
  next
    case False
    with 1 show ?thesis
      by (simp add: str_nat.simps [of n] is_digit_char_of)
  qed
qed

lemma str_nat_nonempty: "str_nat n \<noteq> []"
  by (simp add: str_nat.simps [of n])

lemma digits_val_snoc: "digits_val (ds @ [c]) = 10 * digits_val ds + digit_val c"
  by (simp add: digits_val_def)

lemma digits_val_str_nat: "digits_val (str_nat n) = n"
proof (induction n rule: str_nat.induct)
  case (1 n)
  show ?case
  proof (cases "n < 10")
    case True
    then show ?thesis
      by (simp add: str_nat.simps [of n] digits_val_def digit_val_char_of)
  next
    case False
    with 1 show ?thesis
      by (simp add: str_nat.simps [of n] digits_val_snoc digit_val_char_of)
  qed
qed

lemma is_digit_not_space: "is_digit c \<Longrightarrow> \<not> is_int_space c"
  by (auto simp: is_digit_def is_int_space_def is_c_space_def)

lemma is_digit_not_sign: "is_digit c \<Longrightarrow> c \<noteq> CHR ''+'' \<and> c \<noteq> CHR ''-'' \<and> c \<noteq> CHR ''_'' \<and> c \<noteq> CHR '':''"
  by (auto simp: is_digit_def)

lemma no_double_underscore: "list_all is_digit ds \<Longrightarrow> \<not> double_underscore ds"
  by (induction ds rule: double_underscore.induct) (auto dest: is_digit_not_sign)

lemma py_int_digits:
  assumes "ds \<noteq> []" and "list_all is_digit ds" and "length ds \<le> max_str_digits"
  shows "py_int ds = Some (int (digits_val ds))"
proof -
  have all: "\<forall>x\<in>set ds. is_digit x" using assms(2) by (simp add: list_all_iff)
  have c: "is_digit (hd ds)" using assms(1) all by simp
  have d1: "dropWhile is_int_space ds = ds"
    using c assms(1) by (cases ds) (simp_all add: is_digit_not_space)
  have neg: "(case ds of [] \<Rightarrow> False | c # r \<Rightarrow> c = CHR ''-'') = False"
    using c is_digit_not_sign by (cases ds) auto
  have s2: "(case ds of [] \<Rightarrow> [] | c # r \<Rightarrow> if c = CHR ''+'' \<or> c = CHR ''-'' then r else ds) = ds"
    using c is_digit_not_sign by (cases ds) auto
  have tw: "takeWhile int_body ds = ds" using all by (simp add: int_body_def)
  have dw: "dropWhile int_body ds = []" using all by (simp add: int_body_def)
  have flt: "filter is_digit ds = ds" using all by simp
  have hd: "hd ds \<noteq> CHR ''_''" using c is_digit_not_sign by auto
  have lst: "last ds \<noteq> CHR ''_''"
    using all assms(1) is_digit_not_sign last_in_set by blast
  show ?thesis
    unfolding py_int_def d1 neg s2 Let_def tw dw flt
    using hd lst no_double_underscore [OF assms(2)] assms(1,3)
    by simp
qed

lemma length_str_nat_gt: "10 ^ k \<le> n \<Longrightarrow> k < length (str_nat n)"
proof (induction k arbitrary: n)
  case 0
  then show ?case using str_nat_nonempty [of n] by (cases "str_nat n") auto
next
  case (Suc k)
  obtain m :: nat where m: "10 ^ k = Suc m"
    by (cases "(10::nat) ^ k") simp_all
  have ge: "\<not> n < 10" using Suc.prems unfolding power_Suc m by simp
  from Suc.prems have "10 ^ k \<le> n div 10" by simp
  from Suc.IH [OF this] ge show ?case
    by (simp add: str_nat.simps [of n])
qed

lemma length_str_nat_le: "n < 10 ^ k \<Longrightarrow> 0 < k \<Longrightarrow> length (str_nat n) \<le> k"
proof (induction k arbitrary: n)
  case 0
  then show ?case by simp
next
  case (Suc k)
  show ?case
  proof (cases "n < 10")
    case True
    then show ?thesis by (simp add: str_nat.simps [of n])
  next
    case False
    then have k: "0 < k" using Suc.prems(1) by (cases k) auto
    have "n div 10 < 10 ^ k" using Suc.prems(1) by (simp add: less_mult_imp_div_less mult.commute)
    from Suc.IH [OF this k] False show ?thesis
      by (simp add: str_nat.simps [of n])
  qed
qed

lemma max_str_digits_pos: "2 \<le> max_str_digits"
  by (simp add: max_str_digits_def)

lemma too_long_iff: "0 \<le> i \<Longrightarrow> too_long i \<longleftrightarrow> 10 ^ max_str_digits \<le> i"
proof
  assume a: "0 \<le> i" "too_long i"
  show "10 ^ max_str_digits \<le> i"
  proof (rule ccontr)
    assume "\<not> 10 ^ max_str_digits \<le> i"
    then have "nat i < 10 ^ max_str_digits" using a(1) by (simp add: nat_less_iff)
    from length_str_nat_le [OF this] max_str_digits_pos a show False
      by (simp add: too_long_def)
  qed
next
  assume a: "0 \<le> i" "10 ^ max_str_digits \<le> i"
  then have "10 ^ max_str_digits \<le> nat i" by (simp add: le_nat_iff)
  from length_str_nat_gt [OF this] a(1) show "too_long i"
    by (simp add: too_long_def)
qed

lemma not_too_long_small: "0 \<le> i \<Longrightarrow> i < 100 \<Longrightarrow> \<not> too_long i"
proof -
  assume a: "0 \<le> i" "i < 100"
  then have "nat i < 10 ^ 2" by simp
  from length_str_nat_le [OF this] max_str_digits_pos a(1) show ?thesis
    by (simp add: too_long_def)
qed

lemma fmt_02d_digits:
  assumes "0 \<le> i"
  shows "list_all is_digit (fmt_02d i)" and "fmt_02d i \<noteq> []" and "int (digits_val (fmt_02d i)) = i"
    and "2 \<le> length (fmt_02d i)"
proof -
  have z: "is_digit CHR ''0''" by (simp add: is_digit_def)
  show "list_all is_digit (fmt_02d i)"
    using assms z by (simp add: fmt_02d_def str_int_def str_nat_digits)
  show "fmt_02d i \<noteq> []"
    using assms by (simp add: fmt_02d_def str_int_def str_nat_nonempty)
  have "digits_val (CHR ''0'' # ds) = digits_val ds" for ds
    by (simp add: digits_val_def digit_val_def)
  then show "int (digits_val (fmt_02d i)) = i"
    using assms by (simp add: fmt_02d_def str_int_def digits_val_str_nat)
  have "2 \<le> length (str_nat n)" if "10 \<le> n" for n
    using that str_nat_nonempty [of "n div 10"]
    by (subst str_nat.simps) (cases "str_nat (n div 10)"; simp)
  from this [of "nat i"] show "2 \<le> length (fmt_02d i)"
    using assms str_nat_nonempty [of "nat i"]
    by (cases "str_nat (nat i)") (auto simp: fmt_02d_def str_int_def)
qed

lemma length_fmt_02d:
  assumes "0 \<le> i" and "\<not> too_long i"
  shows "length (fmt_02d i) \<le> max_str_digits"
proof (cases "i < 10")
  case True
  with assms(1) have "nat i < 10" by simp
  then have "length (str_nat (nat i)) = 1" by (simp add: str_nat.simps [of "nat i"])
  with True assms(1) max_str_digits_pos show ?thesis
    by (simp add: fmt_02d_def str_int_def)
next
  case False
  with assms show ?thesis
    by (simp add: fmt_02d_def str_int_def too_long_def)
qed

lemma py_int_fmt_02d: "0 \<le> i \<Longrightarrow> \<not> too_long i \<Longrightarrow> py_int (fmt_02d i) = Some i"
  using py_int_digits [of "fmt_02d i"] fmt_02d_digits [of i] length_fmt_02d [of i] by simp

lemma fmt_02d_no_colon: "0 \<le> i \<Longrightarrow> CHR '':'' \<notin> set (fmt_02d i)"
  using fmt_02d_digits(1) [of i] is_digit_not_sign by (auto simp: list_all_iff)

lemma fmt_02d_small: "0 \<le> i \<Longrightarrow> i < 100 \<Longrightarrow> length (fmt_02d i) = 2"
proof -
  assume a: "0 \<le> i" "i < 100"
  have small: "length (str_nat n) = 1" if "n < 10" for n
    using that by (simp add: str_nat.simps [of n])
  show ?thesis
  proof (cases "i < 10")
    case True
    with a small [of "nat i"] show ?thesis by (simp add: fmt_02d_def str_int_def)
  next
    case False
    then have "nat i div 10 < 10" using a by simp
    from small [OF this] False a show ?thesis
      by (simp add: fmt_02d_def str_int_def str_nat.simps [of "nat i"])
  qed
qed

lemma split_format_time:
  assumes "0 \<le> n"
  shows "split_on CHR '':'' (format_time n) =
     (if n < 3600 then [fmt_02d (n div 60), fmt_02d (n mod 60)]
      else [fmt_02d (n div 3600), fmt_02d ((n mod 3600) div 60), fmt_02d (n mod 60)])"
proof -
  have nn: "0 \<le> n div 3600" "0 \<le> (n mod 3600) div 60" "0 \<le> n mod 60"
    using assms by simp_all
  have h: "n div 3600 > 0 \<longleftrightarrow> \<not> n < 3600" using assms by (auto simp: pos_imp_zdiv_pos_iff)
  have m: "n < 3600 \<Longrightarrow> (n mod 3600) div 60 = n div 60" using assms by simp
  show ?thesis
    using h m nn
    by (simp add: format_time_def Let_def split_on_no_sep split_on_none fmt_02d_no_colon)
qed

lemma time_to_seconds_format_time:
  assumes "0 \<le> n" and "\<not> too_long (n div 3600)"
  shows "time_to_seconds (format_time n) = Inr n"
proof -
  have nn: "0 \<le> n div 3600" "0 \<le> (n mod 3600) div 60" "0 \<le> n mod 60" "0 \<le> n div 60"
    using assms by simp_all
  have a1: "n div 60 * 60 + n mod 60 = n" by simp
  have a2: "n div 3600 * 3600 + (n mod 3600) div 60 * 60 + n mod 60 = n"
  proof -
    have "(n mod 3600) div 60 * 60 + (n mod 3600) mod 60 = n mod 3600" by simp
    moreover have "(n mod 3600) mod 60 = n mod 60"
      by (simp add: mod_mod_cancel)
    moreover have "n div 3600 * 3600 + n mod 3600 = n" by simp
    ultimately show ?thesis by linarith
  qed
  have p1: "py_int (fmt_02d (n mod 60)) = Some (n mod 60)"
    by (rule py_int_fmt_02d [OF nn(3) not_too_long_small [OF nn(3)]]) simp
  have p2: "py_int (fmt_02d (n mod 3600 div 60)) = Some (n mod 3600 div 60)"
    by (rule py_int_fmt_02d [OF nn(2) not_too_long_small [OF nn(2)]]) simp
  have p3: "py_int (fmt_02d (n div 3600)) = Some (n div 3600)"
    by (rule py_int_fmt_02d [OF nn(1) assms(2)])
  have p4: "n < 3600 \<Longrightarrow> py_int (fmt_02d (n div 60)) = Some (n div 60)"
    by (rule py_int_fmt_02d [OF nn(4) not_too_long_small [OF nn(4)]]) simp
  show ?thesis
    unfolding time_to_seconds_def split_format_time [OF assms(1)]
    using a1 a2 p1 p2 p3 p4 by simp
qed

lemma format_time_limited_ok:
  assumes "0 \<le> n" and "\<not> too_long (n div 3600)"
  shows "format_time_limited n = Inr (format_time n)"
proof -
  have nn: "0 \<le> (n mod 3600) div 60" "0 \<le> n mod 60" using assms by simp_all
  have "\<not> too_long (n mod 3600 div 60)" "\<not> too_long (n mod 60)"
    by (rule not_too_long_small [OF nn(1)], simp, rule not_too_long_small [OF nn(2)], simp)
  with assms(2) show ?thesis
    by (simp add: format_time_limited_def format_time_def py_fmt_02d_def Let_def)
qed

lemma format_time_limited_raises:
  assumes "0 \<le> n" and "too_long (n div 3600)"
  shows "format_time_limited n = Inl ValueError"
proof -
  have "0 \<le> n div 3600" using assms(1) by simp
  from too_long_iff [OF this] assms(2) have "0 < n div 3600"
    by (smt (verit) zero_less_power)
  with assms(2) show ?thesis
    by (simp add: format_time_limited_def py_fmt_02d_def Let_def)
qed

lemma digits_val_nines: "digits_val (replicate k CHR ''9'') = 10 ^ k - 1"
proof (induction k)
  case 0
  show ?case by (simp add: digits_val_def)
next
  case (Suc k)
  have r: "replicate (Suc k) CHR ''9'' = replicate k CHR ''9'' @ [CHR ''9'']"
    by (simp add: replicate_append_same)
  have d: "digit_val CHR ''9'' = 9" by (simp add: digit_val_def)
  obtain m :: nat where m: "10 ^ k = Suc m"
    by (cases "(10::nat) ^ k") simp_all
  show ?case
    unfolding r digits_val_snoc Suc.IH d power_Suc m by simp
qed

lemma py_int_nines:
  assumes "0 < k" and "k \<le> max_str_digits"
  shows "py_int (replicate k CHR ''9'') = Some (10 ^ k - 1)"
proof -
  have "is_digit CHR ''9''" by (simp add: is_digit_def)
  then have a: "list_all is_digit (replicate k CHR ''9'')" by (simp add: list_all_iff)
  have n: "replicate k CHR ''9'' \<noteq> []" using assms(1) by simp
  have "int (10 ^ k - 1) = 10 ^ k - 1" by (simp add: of_nat_diff)
  with py_int_digits [OF n a] assms(2) show ?thesis
    by (simp add: digits_val_nines)
qed

lemma time_to_seconds_nines:
  assumes "0 < k" and "k \<le> max_str_digits"
  shows "split_on CHR '':'' (replicate k CHR ''9'' @ '':60:0'') = [replicate k CHR ''9'', ''60'', ''0'']"
    and "time_to_seconds (replicate k CHR ''9'' @ '':60:0'') = Inr (3600 * 10 ^ k)"
proof -
  have c: "CHR '':'' \<notin> set (replicate k CHR ''9'')" by auto
  show s: "split_on CHR '':'' (replicate k CHR ''9'' @ '':60:0'')
             = [replicate k CHR ''9'', ''60'', ''0'']"
    using split_on_no_sep [OF c, of "''60:0''"] by simp
  have p: "py_int ''60'' = Some 60" "py_int ''0'' = Some 0" by code_simp+
  have "(10 ^ k - 1) * 3600 + 60 * 60 + 0 = (3600::int) * 10 ^ k" by (simp add: algebra_simps)
  then show "time_to_seconds (replicate k CHR ''9'' @ '':60:0'') = Inr (3600 * 10 ^ k)"
    unfolding time_to_seconds_def s using py_int_nines [OF assms] p by simp
qed

section \<open>Lemmas about traces and world operations\<close>

lemma runs_of_append: "runs_of (a @ b) = runs_of a @ runs_of b"
  by (induction a rule: runs_of.induct) auto

lemma jobs_of_append: "jobs_of (a @ b) = jobs_of a @ jobs_of b"
  by (induction a rule: jobs_of.induct) auto

lemma rows_read_append: "rows_read (a @ b) = rows_read a @ rows_read b"
  by (induction a rule: rows_read.induct) auto

lemma acquirer_events_silent:
  "list_all is_acquirer_event evs \<Longrightarrow>
     jobs_of evs = [] \<and> rows_read evs = [] \<and> filter is_auth_report evs = [] \<and> Open_csv \<notin> set evs"
proof (induction evs)
  case Nil
  then show ?case by simp
next
  case (Cons ev evs)
  then show ?case by (cases ev) auto
qed

lemma emit_simps:
  "trace (emit ev w) = trace w @ [ev]" "files (emit ev w) = files w" "ext (emit ev w) = ext w"
  by (simp_all add: emit_def)

lemma print_simps:
  "trace (print m w) = trace w @ [Print m]" "files (print m w) = files w" "ext (print m w) = ext w"
  by (simp_all add: print_def emit_def)

lemma path_exists_print: "path_exists (print m w) p = path_exists w p"
  and st_size_print: "st_size (print m w) p = st_size w p"
  by (simp_all add: path_exists_def st_size_def print_simps)

lemma unlink_if_exists_simps:
  "files (unlink_if_exists p w) = (files w)(path_str p := None)"
  "ext (unlink_if_exists p w) = ext w"
  "\<exists>evs. trace (unlink_if_exists p w) = trace w @ evs \<and> list_all is_acquirer_event evs \<and> runs_of evs = []"
  by (auto simp: unlink_if_exists_def unlink_def emit_def path_exists_def)

lemma subprocess_run_simps:
  "fst (subprocess_run T cmd w) = fst (T cmd (ext w) (files w))"
  "trace (snd (subprocess_run T cmd w)) = trace w @ [Run cmd]"
  "files (snd (subprocess_run T cmd w)) = snd (snd (T cmd (ext w) (files w)))"
  "ext (snd (subprocess_run T cmd w)) = fst (snd (T cmd (ext w) (files w)))"
  by (simp_all add: subprocess_run_def emit_def split: prod.splits)

lemma report_exhausted_simps:
  "files (report_exhausted v p le w) = (files w)(path_str p := None)"
  "ext (report_exhausted v p le w) = ext w"
  "\<exists>evs. trace (report_exhausted v p le w) = trace w @ Print (MsgErrorDownloading v) # evs
      \<and> list_all is_acquirer_event evs \<and> runs_of evs = []"
proof -
  show "files (report_exhausted v p le w) = (files w)(path_str p := None)"
    by (simp add: report_exhausted_def Let_def unlink_if_exists_simps print_simps split: option.splits)
  show "ext (report_exhausted v p le w) = ext w"
    by (simp add: report_exhausted_def Let_def unlink_if_exists_simps print_simps split: option.splits)
  define w4 where "w4 = (let w1 = print (MsgErrorDownloading v) w;
          w2 = (case le of
                  None \<Rightarrow> w1
                | Some le \<Rightarrow> if le \<noteq> [] then print (MsgError le) w1 else w1);
          w3 = (case le of
                  None \<Rightarrow> w2
                | Some le \<Rightarrow>
                    if le \<noteq> [] \<and> (sub_in ''403'' le \<or> sub_in ''Forbidden'' le)
                    then print MsgTipUpdate w2 else w2)
           in (case le of
                  None \<Rightarrow> w3
                | Some le \<Rightarrow>
                    if le \<noteq> [] \<and> (sub_in ''bot'' (lower le) \<or> sub_in ''cookies'' (lower le))
                    then print MsgTipCookies w3 else w3))"
  have r: "report_exhausted v p le w = unlink_if_exists p w4"
    by (simp add: report_exhausted_def w4_def Let_def)
  have "\<exists>evs. trace w4 = trace w @ Print (MsgErrorDownloading v) # evs
      \<and> list_all is_acquirer_event evs \<and> runs_of evs = []"
    by (auto simp: w4_def Let_def print_simps split: option.splits)
  then obtain evs where e: "trace w4 = trace w @ Print (MsgErrorDownloading v) # evs"
     "list_all is_acquirer_event evs" "runs_of evs = []" by blast
  obtain evs2 where e2: "trace (unlink_if_exists p w4) = trace w4 @ evs2"
     "list_all is_acquirer_event evs2" "runs_of evs2 = []"
    using unlink_if_exists_simps(3) by blast
  show "\<exists>evs. trace (report_exhausted v p le w) = trace w @ Print (MsgErrorDownloading v) # evs
      \<and> list_all is_acquirer_event evs \<and> runs_of evs = []"
    unfolding r using e e2
    by (intro exI [of _ "evs @ evs2"]) (simp add: runs_of_append)
qed

lemma failed_before_Nil: "failed_before T temp [] e f = 0"
  by (simp add: failed_before_def)

lemma failed_before_Cons:
  "failed_before T temp (c # cs) e f =
     (if has_artifact temp (snd (T c e f)) then 0
      else Suc (failed_before T temp cs (fst (snd (T c e f))) (snd (snd (T c e f)))))"
  by (simp add: failed_before_def)

lemma failed_before_le: "failed_before T temp ms e f \<le> length ms"
proof -
  have "length (fetch_states T ms e f) = length ms"
    by (induction ms arbitrary: e f) auto
  then show ?thesis
    unfolding failed_before_def
    by (metis length_takeWhile_le)
qed

lemma has_artifact_world:
  "has_artifact (path_str p) (ext w, files w) = (path_exists w p \<and> 0 < st_size w p)"
  by (auto simp: has_artifact_def path_exists_def st_size_def split: option.splits)

lemma try_methods_run:
  assumes "cmds \<noteq> []" and "i + length cmds = Suc n"
  shows "\<exists>evs w'. try_methods T vid tp n i le cmds w
             = (if failed_before T (path_str tp) cmds (ext w) (files w) < length cmds
                then Broke else Returned False, w')
         \<and> trace w' = trace w @ evs
         \<and> list_all is_acquirer_event evs
         \<and> runs_of evs = take (Suc (failed_before T (path_str tp) cmds (ext w) (files w))) cmds
         \<and> (failed_before T (path_str tp) cmds (ext w) (files w) < length cmds \<longrightarrow>
              ext w' = fst (fetch_states T cmds (ext w) (files w)
                                    ! failed_before T (path_str tp) cmds (ext w) (files w))
              \<and> files w' = snd (fetch_states T cmds (ext w) (files w)
                                    ! failed_before T (path_str tp) cmds (ext w) (files w))
              \<and> has_artifact (path_str tp) (fetch_states T cmds (ext w) (files w)
                                    ! failed_before T (path_str tp) cmds (ext w) (files w)))
         \<and> (\<not> failed_before T (path_str tp) cmds (ext w) (files w) < length cmds \<longrightarrow>
              files w' = (snd (last (fetch_states T cmds (ext w) (files w))))(path_str tp := None)
              \<and> Print (MsgErrorDownloading vid) \<in> set evs)"
  using assms
proof (induction cmds arbitrary: i le w)
  case Nil
  then show ?case by simp
next
  case (Cons c cs)
  define w1 where "w1 = print (MsgDownloading i) w"
  define r where "r = fst (subprocess_run T c w1)"
  define w2 where "w2 = snd (subprocess_run T c w1)"
  define le' where "le' = (case r of Completed \<Rightarrow> le
                  | CalledProcessError se so other \<Rightarrow> Some (error_text se so other))"
  have sr: "subprocess_run T c w1 = (r, w2)" by (simp add: r_def w2_def)
  have tr2: "trace w2 = trace w @ [Print (MsgDownloading i), Run c]"
    by (simp add: w2_def w1_def subprocess_run_simps print_simps)
  have st2: "(ext w2, files w2) = snd (T c (ext w) (files w))"
    by (simp add: w2_def w1_def subprocess_run_simps print_simps)
  have st2': "fst (snd (T c (ext w) (files w))) = ext w2" "snd (snd (T c (ext w) (files w))) = files w2"
    by (simp_all add: w2_def w1_def subprocess_run_simps print_simps)
  have ha: "has_artifact (path_str tp) (snd (T c (ext w) (files w)))
              = (path_exists w2 tp \<and> 0 < st_size w2 tp)"
    using has_artifact_world [of tp w2] st2 by simp
  have unf: "try_methods T vid tp n i le (c # cs) w =
       (if path_exists w2 tp \<and> 0 < st_size w2 tp then
                (Broke, print (MsgDownloadedTemp (path_name tp) (st_size w2 tp)) w2)
              else if i < n then
                try_methods T vid tp n (i + 1) le' cs (print (MsgMethodFailed i) w2)
              else
                (Returned False, report_exhausted vid tp le' w2))"
    using sr by (simp add: w1_def le'_def Let_def)
  show ?case
  proof (cases "path_exists w2 tp \<and> 0 < st_size w2 tp")
    case True
    then have k: "failed_before T (path_str tp) (c # cs) (ext w) (files w) = 0"
      using ha by (simp add: failed_before_Cons)
    have unf2: "try_methods T vid tp n i le (c # cs) w
             = (Broke, print (MsgDownloadedTemp (path_name tp) (st_size w2 tp)) w2)"
      unfolding unf if_P [OF True] by simp
    show ?thesis
      unfolding k unf2 using True tr2 st2' ha
      by (intro exI [of _ "[Print (MsgDownloading i), Run c,
                            Print (MsgDownloadedTemp (path_name tp) (st_size w2 tp))]"]
                exI [of _ "print (MsgDownloadedTemp (path_name tp) (st_size w2 tp)) w2"])
         (simp add: print_simps)
  next
    case False
    then have k: "failed_before T (path_str tp) (c # cs) (ext w) (files w)
                    = Suc (failed_before T (path_str tp) cs (ext w2) (files w2))"
      using ha st2' by (simp add: failed_before_Cons)
    show ?thesis
    proof (cases "i < n")
      case True
      then have cs: "cs \<noteq> []" "Suc i + length cs = Suc n" using Cons.prems by auto
      define w3 where "w3 = print (MsgMethodFailed i) w2"
      have w3: "ext w3 = ext w2" "files w3 = files w2"
        "trace w3 = trace w @ [Print (MsgDownloading i), Run c, Print (MsgMethodFailed i)]"
        by (simp_all add: w3_def print_simps tr2)
      from Cons.IH [OF cs, of le' w3]
      obtain evs w' where ih:
        "try_methods T vid tp n (Suc i) le' cs w3
             = (if failed_before T (path_str tp) cs (ext w2) (files w2) < length cs
                then Broke else Returned False, w')"
        "trace w' = trace w3 @ evs"
        "list_all is_acquirer_event evs"
        "runs_of evs = take (Suc (failed_before T (path_str tp) cs (ext w2) (files w2))) cs"
        "failed_before T (path_str tp) cs (ext w2) (files w2) < length cs \<longrightarrow>
              ext w' = fst (fetch_states T cs (ext w2) (files w2)
                                    ! failed_before T (path_str tp) cs (ext w2) (files w2))
              \<and> files w' = snd (fetch_states T cs (ext w2) (files w2)
                                    ! failed_before T (path_str tp) cs (ext w2) (files w2))
              \<and> has_artifact (path_str tp) (fetch_states T cs (ext w2) (files w2)
                                    ! failed_before T (path_str tp) cs (ext w2) (files w2))"
        "\<not> failed_before T (path_str tp) cs (ext w2) (files w2) < length cs \<longrightarrow>
              files w' = (snd (last (fetch_states T cs (ext w2) (files w2))))(path_str tp := None)
              \<and> Print (MsgErrorDownloading vid) \<in> set evs"
        unfolding w3 by blast
      have fs: "fetch_states T (c # cs) (ext w) (files w)
                  = snd (T c (ext w) (files w)) # fetch_states T cs (ext w2) (files w2)"
        using st2' by simp
      have fne: "fetch_states T cs (ext w2) (files w2) \<noteq> []"
        using cs(1) by (cases cs) auto
      have unf2: "try_methods T vid tp n i le (c # cs) w
             = (if failed_before T (path_str tp) cs (ext w2) (files w2) < length cs
                then Broke else Returned False, w')"
        unfolding unf if_not_P [OF False] if_P [OF True] using ih(1) by (simp add: w3_def)
      show ?thesis
        unfolding k unf2 fs using ih(2-) w3(3) fne
        by (intro exI [of _ "[Print (MsgDownloading i), Run c, Print (MsgMethodFailed i)] @ evs"]
                  exI [of _ w'])
           simp
    next
      case nlt: False
      then have cs: "cs = []" using Cons.prems by auto
      obtain evs where ev:
        "trace (report_exhausted vid tp le' w2) = trace w2 @ Print (MsgErrorDownloading vid) # evs"
        "list_all is_acquirer_event evs" "runs_of evs = []"
        using report_exhausted_simps(3) by blast
      have unf2: "try_methods T vid tp n i le (c # cs) w
             = (Returned False, report_exhausted vid tp le' w2)"
        unfolding unf if_not_P [OF False] if_not_P [OF nlt] by simp
      show ?thesis
        unfolding k unf2 using cs ev tr2 st2'
        by (intro exI [of _ "[Print (MsgDownloading i), Run c, Print (MsgErrorDownloading vid)] @ evs"]
                  exI [of _ "report_exhausted vid tp le' w2"])
           (simp add: report_exhausted_simps failed_before_Nil)
    qed
  qed
qed

lemma download_methods_nonempty: "download_methods w ck temp url \<noteq> []"
  by (simp add: download_methods_def browsers_def)

lemma download_methods_not_transcode:
  "c \<in> set (download_methods w ck temp url) \<Longrightarrow> \<not> is_transcode c"
  by (auto simp: download_methods_def browsers_def is_transcode_def cookie_method_def
      browser_method_def split: option.splits if_splits)

lemma length_fetch_states: "length (fetch_states T ms e f) = length ms"
  by (induction ms arbitrary: e f) auto

lemma fetch_states_cong:
  assumes "\<And>c e f. snd (T' c e f) = snd (T c e f)"
  shows "fetch_states T' ms e f = fetch_states T ms e f"
  by (induction ms arbitrary: e f) (simp_all add: assms)

lemma new_events_append: "trace w' = trace w @ evs \<Longrightarrow> new_events w w' = evs"
  by (simp add: new_events_def)

lemma download_run:
  fixes T :: "'e tool" and w :: "'e world" and out :: path and vid :: string
    and ck :: "string option" and s e :: int
  defines "temp \<equiv> path_str (temp_path_of out vid)"
  defines "ms \<equiv> download_methods w ck temp (url_of vid)"
  defines "k \<equiv> failed_before T temp ms (ext w) (files w)"
  defines "trim \<equiv> trim_cmd temp (format_time s) (e - s) (path_str out)"
  shows "\<exists>evs ok w'. download_youtube_segment T vid s e out ck w = (ok, w')
      \<and> trace w' = trace w @ evs
      \<and> list_all is_acquirer_event evs
      \<and> runs_of evs = take (Suc k) ms @ (if k < length ms then [trim] else [])
      \<and> (\<not> k < length ms \<longrightarrow>
            \<not> ok \<and> files w' = (snd (last (fetch_states T ms (ext w) (files w))))(temp := None)
            \<and> Print (MsgErrorDownloading vid) \<in> set evs)
      \<and> (k < length ms \<longrightarrow>
            ok = (fst (T trim (fst (fetch_states T ms (ext w) (files w) ! k))
                              (snd (fetch_states T ms (ext w) (files w) ! k))) = Completed)
            \<and> files w' = (snd (snd (T trim (fst (fetch_states T ms (ext w) (files w) ! k))
                              (snd (fetch_states T ms (ext w) (files w) ! k)))))(temp := None)
            \<and> ext w' = fst (snd (T trim (fst (fetch_states T ms (ext w) (files w) ! k))
                              (snd (fetch_states T ms (ext w) (files w) ! k)))))"
proof -
  define tp where "tp = temp_path_of out vid"
  have temp: "temp = path_str tp" by (simp add: temp_def tp_def)
  have ne: "ms \<noteq> []" "1 + length ms = Suc (length ms)"
    by (simp_all add: ms_def download_methods_nonempty)
  from try_methods_run [OF ne, of T vid tp None w]
  obtain evs w1 where l:
    "try_methods T vid tp (length ms) 1 None ms w = (if k < length ms then Broke else Returned False, w1)"
    "trace w1 = trace w @ evs"
    "list_all is_acquirer_event evs"
    "runs_of evs = take (Suc k) ms"
    "k < length ms \<longrightarrow> ext w1 = fst (fetch_states T ms (ext w) (files w) ! k)
         \<and> files w1 = snd (fetch_states T ms (ext w) (files w) ! k)
         \<and> has_artifact temp (fetch_states T ms (ext w) (files w) ! k)"
    "\<not> k < length ms \<longrightarrow>
         files w1 = (snd (last (fetch_states T ms (ext w) (files w))))(temp := None)
         \<and> Print (MsgErrorDownloading vid) \<in> set evs"
    unfolding k_def temp by blast
  have unf: "download_youtube_segment T vid s e out ck w =
      (case try_methods T vid tp (length ms) 1 None ms w of
           (Returned b, w1) \<Rightarrow> (b, w1)
         | (_, w1) \<Rightarrow>
             if \<not> path_exists w1 tp \<or> st_size w1 tp = 0 then
               (False, unlink_if_exists tp (print (MsgDownloadFailed vid) w1))
             else
               (case subprocess_run T trim (print (MsgTrimming (format_time s) (e - s)) w1) of
                  (Completed, w3) \<Rightarrow>
                    (True, print (MsgDownloaded (path_str out)) (unlink_if_exists tp w3))
                | (CalledProcessError se so other, w3) \<Rightarrow>
                    (False, unlink_if_exists tp
                              (print (MsgError (error_text se so ''Unknown error''))
                                 (print (MsgErrorTrimming vid) w3)))))"
    unfolding download_youtube_segment_def Let_def ms_def temp_def tp_def trim_def
        temp_path_of_def url_of_def by (rule refl)
  show ?thesis
  proof (cases "k < length ms")
    case False
    then have "download_youtube_segment T vid s e out ck w = (False, w1)"
      unfolding unf l(1) by simp
    with False l show ?thesis
      by (intro exI [of _ evs] exI [of _ False] exI [of _ w1]) simp
  next
    case True
    then have art: "path_exists w1 tp \<and> 0 < st_size w1 tp"
      using l(5) has_artifact_world [of tp w1] by (simp add: temp)
    define w2 where "w2 = print (MsgTrimming (format_time s) (e - s)) w1"
    define r where "r = fst (subprocess_run T trim w2)"
    define w3 where "w3 = snd (subprocess_run T trim w2)"
    have sr: "subprocess_run T trim w2 = (r, w3)" by (simp add: r_def w3_def)
    have w3: "trace w3 = trace w @ evs @ [Print (MsgTrimming (format_time s) (e - s)), Run trim]"
      "files w3 = snd (snd (T trim (ext w1) (files w1)))"
      "ext w3 = fst (snd (T trim (ext w1) (files w1)))"
      "r = fst (T trim (ext w1) (files w1))"
      by (simp_all add: w3_def r_def w2_def subprocess_run_simps print_simps l(2))
    define w' where "w' = (case r of
          Completed \<Rightarrow> print (MsgDownloaded (path_str out)) (unlink_if_exists tp w3)
        | CalledProcessError se so other \<Rightarrow> unlink_if_exists tp
                              (print (MsgError (error_text se so ''Unknown error''))
                                 (print (MsgErrorTrimming vid) w3)))"
    have res: "download_youtube_segment T vid s e out ck w = (r = Completed, w')"
      unfolding unf l(1) using True art sr
      by (simp add: w2_def [symmetric] w'_def split: proc_result.splits)
    have "\<exists>evs2. trace w' = trace w3 @ evs2 \<and> list_all is_acquirer_event evs2 \<and> runs_of evs2 = []"
    proof (cases r)
      case Completed
      obtain ev where "trace (unlink_if_exists tp w3) = trace w3 @ ev"
        "list_all is_acquirer_event ev" "runs_of ev = []"
        using unlink_if_exists_simps(3) by blast
      with Completed show ?thesis
        by (intro exI [of _ "ev @ [Print (MsgDownloaded (path_str out))]"])
           (simp add: w'_def print_simps runs_of_append)
    next
      case (CalledProcessError se so other)
      define w4 where "w4 = print (MsgError (error_text se so ''Unknown error''))
                                 (print (MsgErrorTrimming vid) w3)"
      obtain ev where "trace (unlink_if_exists tp w4) = trace w4 @ ev"
        "list_all is_acquirer_event ev" "runs_of ev = []"
        using unlink_if_exists_simps(3) by blast
      with CalledProcessError show ?thesis
        by (intro exI [of _ "[Print (MsgErrorTrimming vid),
               Print (MsgError (error_text se so ''Unknown error''))] @ ev"])
           (simp add: w'_def w4_def [symmetric], simp add: w4_def print_simps)
    qed
    then obtain evs2 where e2: "trace w' = trace w3 @ evs2" "list_all is_acquirer_event evs2"
      "runs_of evs2 = []" by blast
    have f': "files w' = (files w3)(temp := None)" "ext w' = ext w3"
      by (cases r; simp add: w'_def unlink_if_exists_simps print_simps temp)+
    show ?thesis
      unfolding res using True e2 f' w3 l
      by (intro exI [of _ "evs @ [Print (MsgTrimming (format_time s) (e - s)), Run trim] @ evs2"]
            exI [of _ "r = Completed"] exI [of _ w'])
         (simp add: runs_of_append)
  qed
qed

lemma fetch_states_restatus: "fetch_states (restatus g T) ms e f = fetch_states T ms e f"
  by (rule fetch_states_cong) (simp add: restatus_def)

lemma failed_before_restatus: "failed_before (restatus g T) temp ms e f = failed_before T temp ms e f"
  by (simp add: failed_before_def fetch_states_restatus)


section \<open>Lemmas about the loop over the rows\<close>

lemma extract_prefix_nonempty: "extract_prefix_from_header h = Some p \<Longrightarrow> p \<noteq> []"
  by (induction h) (auto split: if_splits)

lemma process_row_header:
  assumes "is_header_row row"
  shows "process_row T hc st row w =
     (case extract_prefix_from_header (row ! 0) of
        None \<Rightarrow> (Inr (st\<lparr>prefix := None\<rparr>), w)
      | Some p \<Rightarrow>
          (Inr (st\<lparr>prefix := Some p, output_folder := Some (wav_dir @ [p]),
                  video_id_counts := Map.empty\<rparr>),
           print (MsgOutputFolder (path_str (wav_dir @ [p])))
             (mkdir (wav_dir @ [p]) (print (MsgProcessingPrefix p) w))))"
  using assms extract_prefix_nonempty [of "row ! 0"]
  by (simp add: process_row_def Let_def split: option.splits)

lemma process_row_skip:
  assumes "\<not> is_header_row row" and "\<not> (active st \<and> data_row_ok row)"
  shows "process_row T hc st row w = (Inr st, w)
       \<or> process_row T hc st row w
           = (Inr st, print (MsgSkippingInvalidId (strip (row ! 0)) (length (strip (row ! 0)))) w)"
  using assms
  by (auto simp: process_row_def Let_def active_def data_row_ok_def)

lemma process_row_raise:
  assumes "\<not> is_header_row row" and "active st" and "data_row_ok row"
    and "row_times row = Inl e"
  shows "process_row T hc st row w = (Inl e, w)
       \<or> process_row T hc st row w
           = (Inl e, print (MsgProcessing (strip (row ! 0)) (strip (row ! 1))) w)"
proof (cases "parse_time_range (strip (row ! 1))")
  case (Inl e')
  with assms show ?thesis
    by (simp add: process_row_def Let_def active_def data_row_ok_def row_times_def)
next
  case (Inr ab)
  obtain a b where ab: "ab = (a, b)" by (cases ab)
  from assms(4) Inr ab have t: "too_long a \<or> too_long b" and e: "e = ValueError"
    by (auto simp: row_times_def split: if_splits)
  obtain d where d: "output_folder st = Some d" and p: "truthy (prefix st)"
    using assms(2) by (auto simp: active_def)
  have c: "\<not> length row < 2" "strip (row ! 0) \<noteq> []" "strip (row ! 1) \<noteq> []"
    "length (strip (row ! 0)) = 11"
    using assms(3) by (auto simp: data_row_ok_def)
  have "process_row T hc st row w
           = (Inl e, print (MsgProcessing (strip (row ! 0)) (strip (row ! 1))) w)"
    unfolding process_row_def Let_def
    using assms(1) d p c Inr ab t e by simp
  then show ?thesis ..
qed

lemma counts_update:
  "(case counts v of Some c \<Rightarrow> counts(v \<mapsto> c + 1) | None \<Rightarrow> counts(v \<mapsto> 0))
     = counts(v \<mapsto> next_index counts v)"
  by (simp add: next_index_def split: option.splits)

lemma process_row_job:
  assumes "\<not> is_header_row row" and "active st" and "data_row_ok row"
    and "row_times row = Inr (a, b)"
  shows "process_row T hc st row w =
     (Inr (st\<lparr>video_id_counts :=
               (video_id_counts st)(strip (row ! 0) \<mapsto>
                  next_index (video_id_counts st) (strip (row ! 0)))\<rparr>),
      snd (download_youtube_segment T (strip (row ! 0)) a b
             (job_output_path (row_job hc st row a b)) (job_cookies (row_job hc st row a b))
             (emit (Call_download (row_job hc st row a b))
                (print (MsgOutput (path_str (job_output_path (row_job hc st row a b))))
                   (print (MsgStartEnd a b)
                      (print (MsgProcessing (strip (row ! 0)) (strip (row ! 1))) w))))))"
proof -
  obtain d where d: "output_folder st = Some d" and t: "truthy (prefix st)"
    using assms(2) by (auto simp: active_def)
  have c: "\<not> length row < 2" "strip (row ! 0) \<noteq> []" "strip (row ! 1) \<noteq> []"
    "length (strip (row ! 0)) = 11"
    using assms(3) by (auto simp: data_row_ok_def)
  have p: "parse_time_range (strip (row ! 1)) = Inr (a, b)" "\<not> (too_long a \<or> too_long b)"
    using assms(4) by (auto simp: row_times_def split: sum.splits prod.splits if_splits)
  show ?thesis
    unfolding process_row_def Let_def counts_update row_job_def
    using assms(1) p d t c
    by (simp split: prod.splits)
qed


lemma download_events:
  "\<exists>evs. trace (snd (download_youtube_segment T v a b out ck w)) = trace w @ evs
      \<and> list_all is_acquirer_event evs"
  using download_run [of T v a b out ck w] by auto

lemma jobs_of_dry_print [simp]: "jobs_of (trace (print m w)) = jobs_of (trace w)"
  by (simp add: print_simps jobs_of_append)

lemma row_step_header:
  assumes "is_header_row row"
  shows "row_step st row =
     Inr (case extract_prefix_from_header (row ! 0) of
            None \<Rightarrow> st\<lparr>prefix := None\<rparr>
          | Some p \<Rightarrow> st\<lparr>prefix := Some p, output_folder := Some (wav_dir @ [p]),
                          video_id_counts := Map.empty\<rparr>)"
    and "row_jobs hc st row = []"
  unfolding row_step_def row_jobs_def process_row_header [OF assms]
  by (simp_all add: dry_world_def mkdir_def emit_simps jobs_of_append split: option.splits)

lemma row_step_skip:
  assumes "\<not> is_header_row row" and "\<not> (active st \<and> data_row_ok row)"
  shows "row_step st row = Inr st" and "row_jobs hc st row = []"
  using process_row_skip [OF assms, of dry_tool False dry_world]
        process_row_skip [OF assms, of dry_tool hc dry_world]
  by (auto simp: row_step_def row_jobs_def dry_world_def)

lemma row_step_raise:
  assumes "\<not> is_header_row row" and "active st" and "data_row_ok row"
    and "row_times row = Inl e"
  shows "row_step st row = Inl e" and "row_jobs hc st row = []"
  using process_row_raise [OF assms, of dry_tool False dry_world]
        process_row_raise [OF assms, of dry_tool hc dry_world]
  by (auto simp: row_step_def row_jobs_def dry_world_def)

lemma row_step_job:
  assumes "\<not> is_header_row row" and "active st" and "data_row_ok row"
    and "row_times row = Inr (a, b)"
  shows "row_step st row =
           Inr (st\<lparr>video_id_counts :=
               (video_id_counts st)(strip (row ! 0) \<mapsto>
                  next_index (video_id_counts st) (strip (row ! 0)))\<rparr>)"
    and "row_jobs hc st row = [row_job hc st row a b]"
proof -
  show "row_step st row =
           Inr (st\<lparr>video_id_counts :=
               (video_id_counts st)(strip (row ! 0) \<mapsto>
                  next_index (video_id_counts st) (strip (row ! 0)))\<rparr>)"
    unfolding row_step_def process_row_job [OF assms] by simp
  define w0 where "w0 = emit (Call_download (row_job hc st row a b))
                (print (MsgOutput (path_str (job_output_path (row_job hc st row a b))))
                   (print (MsgStartEnd a b)
                      (print (MsgProcessing (strip (row ! 0)) (strip (row ! 1))) dry_world)))"
  obtain evs where e: "trace (snd (download_youtube_segment dry_tool (strip (row ! 0)) a b
             (job_output_path (row_job hc st row a b)) (job_cookies (row_job hc st row a b)) w0))
        = trace w0 @ evs" "list_all is_acquirer_event evs"
    using download_events by blast
  have "jobs_of (trace w0) = [row_job hc st row a b]"
    by (simp add: w0_def emit_simps jobs_of_append dry_world_def)
  with e acquirer_events_silent [OF e(2)]
  show "row_jobs hc st row = [row_job hc st row a b]"
    unfolding row_jobs_def process_row_job [OF assms] w0_def [symmetric]
    by (simp add: jobs_of_append)
qed

lemma process_row_summary:
  "\<exists>evs w'. process_row T hc st row w = (row_step st row, w')
      \<and> trace w' = trace w @ evs
      \<and> jobs_of evs = row_jobs hc st row
      \<and> rows_read evs = []
      \<and> filter is_auth_report evs = []
      \<and> Open_csv \<notin> set evs
      \<and> (row_jobs hc st row = [] \<longrightarrow> runs_of evs = [] \<and> files w' = files w \<and> ext w' = ext w)"
proof (cases "is_header_row row")
  case True
  show ?thesis
  proof (cases "extract_prefix_from_header (row ! 0)")
    case None
    with True show ?thesis
      by (intro exI [of _ "[]"] exI [of _ w])
         (simp add: process_row_header row_step_header)
  next
    case (Some p)
    with True show ?thesis
      by (intro exI [of _ "[Print (MsgProcessingPrefix p), Mkdir (path_str (wav_dir @ [p])),
                           Print (MsgOutputFolder (path_str (wav_dir @ [p])))]"]
                exI [of _ "print (MsgOutputFolder (path_str (wav_dir @ [p])))
                            (mkdir (wav_dir @ [p]) (print (MsgProcessingPrefix p) w))"])
         (simp add: process_row_header row_step_header print_simps mkdir_def emit_simps)
  qed
next
  case False
  show ?thesis
  proof (cases "active st \<and> data_row_ok row")
    case nok: False
    from process_row_skip [OF False nok, of T hc w] show ?thesis
    proof
      assume "process_row T hc st row w = (Inr st, w)"
      then show ?thesis
        by (intro exI [of _ "[]"] exI [of _ w]) (simp add: row_step_skip [OF False nok])
    next
      assume "process_row T hc st row w
           = (Inr st, print (MsgSkippingInvalidId (strip (row ! 0)) (length (strip (row ! 0)))) w)"
      then show ?thesis
        by (intro exI [of _ "[Print (MsgSkippingInvalidId (strip (row ! 0)) (length (strip (row ! 0))))]"]
                  exI [of _ "print (MsgSkippingInvalidId (strip (row ! 0)) (length (strip (row ! 0)))) w"])
           (simp add: row_step_skip [OF False nok] print_simps)
    qed
  next
    case ok: True
    then have a: "active st" and d: "data_row_ok row" by auto
    show ?thesis
    proof (cases "row_times row")
      case (Inl e)
      from process_row_raise [OF False a d Inl, of T hc w] show ?thesis
      proof
        assume "process_row T hc st row w = (Inl e, w)"
        then show ?thesis
          by (intro exI [of _ "[]"] exI [of _ w]) (simp add: row_step_raise [OF False a d Inl])
      next
        assume "process_row T hc st row w
           = (Inl e, print (MsgProcessing (strip (row ! 0)) (strip (row ! 1))) w)"
        then show ?thesis
          by (intro exI [of _ "[Print (MsgProcessing (strip (row ! 0)) (strip (row ! 1)))]"]
                    exI [of _ "print (MsgProcessing (strip (row ! 0)) (strip (row ! 1))) w"])
             (simp add: row_step_raise [OF False a d Inl] print_simps)
      qed
    next
      case (Inr ab)
      obtain x y where ab: "ab = (x, y)" by (cases ab)
      note p = Inr [unfolded ab]
      define w0 where "w0 = emit (Call_download (row_job hc st row x y))
                (print (MsgOutput (path_str (job_output_path (row_job hc st row x y))))
                   (print (MsgStartEnd x y)
                      (print (MsgProcessing (strip (row ! 0)) (strip (row ! 1))) w)))"
      define w' where "w' = snd (download_youtube_segment T (strip (row ! 0)) x y
             (job_output_path (row_job hc st row x y)) (job_cookies (row_job hc st row x y)) w0)"
      obtain evs where e: "trace w' = trace w0 @ evs" "list_all is_acquirer_event evs"
        unfolding w'_def using download_events by blast
      have t0: "trace w0 = trace w @ [Print (MsgProcessing (strip (row ! 0)) (strip (row ! 1))),
                  Print (MsgStartEnd x y),
                  Print (MsgOutput (path_str (job_output_path (row_job hc st row x y)))),
                  Call_download (row_job hc st row x y)]"
        by (simp add: w0_def emit_simps print_simps)
      have pr: "process_row T hc st row w = (row_step st row, w')"
        unfolding process_row_job [OF False a d p] row_step_job(1) [OF False a d p]
          w'_def w0_def by (rule refl)
      show ?thesis
        unfolding pr
        using e t0 acquirer_events_silent [OF e(2)]
        by (intro exI [of _ "[Print (MsgProcessing (strip (row ! 0)) (strip (row ! 1))),
                  Print (MsgStartEnd x y),
                  Print (MsgOutput (path_str (job_output_path (row_job hc st row x y)))),
                  Call_download (row_job hc st row x y)] @ evs"] exI [of _ w'])
           (simp add: row_step_job(2) [OF False a d p] jobs_of_append rows_read_append)
    qed
  qed
qed

lemma process_rows_plan:
  "\<exists>evs w'. process_rows T hc st rows w = (plan_exit st rows, plan_state st rows, w')
      \<and> trace w' = trace w @ evs
      \<and> jobs_of evs = plan_jobs hc st rows
      \<and> rows_read evs = take (plan_read st rows) rows
      \<and> filter is_auth_report evs = []
      \<and> Open_csv \<notin> set evs
      \<and> (plan_jobs hc st rows = [] \<longrightarrow> runs_of evs = [] \<and> files w' = files w \<and> ext w' = ext w)"
proof (induction rows arbitrary: st w)
  case Nil
  show ?case by (intro exI [of _ "[]"] exI [of _ w]) simp
next
  case (Cons row rows)
  define w0 where "w0 = emit (Read_row row) w"
  obtain evs w1 where r: "process_row T hc st row w0 = (row_step st row, w1)"
      "trace w1 = trace w0 @ evs"
      "jobs_of evs = row_jobs hc st row"
      "rows_read evs = []"
      "filter is_auth_report evs = []"
      "Open_csv \<notin> set evs"
      "row_jobs hc st row = [] \<longrightarrow> runs_of evs = [] \<and> files w1 = files w0 \<and> ext w1 = ext w0"
    using process_row_summary [of T hc st row w0] by blast
  have t0: "trace w0 = trace w @ [Read_row row]" "files w0 = files w" "ext w0 = ext w"
    by (simp_all add: w0_def emit_simps)
  show ?case
  proof (cases "row_step st row")
    case (Inl e)
    have j: "row_jobs hc st row = []"
    proof (cases "is_header_row row")
      case True
      then show ?thesis by (rule row_step_header(2))
    next
      case False
      show ?thesis
      proof (cases "active st \<and> data_row_ok row")
        case True
        then have a: "active st" "data_row_ok row" by auto
        show ?thesis
        proof (cases "row_times row")
          case l: (Inl e')
          show ?thesis by (rule row_step_raise(2) [OF False a l])
        next
          case (Inr ab)
          obtain x y where "ab = (x, y)" by (cases ab)
          with row_step_job(1) [OF False a Inr [unfolded this]] Inl show ?thesis by simp
        qed
      next
        case nok: False
        show ?thesis by (rule row_step_skip(2) [OF False nok])
      qed
    qed
    have pr: "process_rows T hc st (row # rows) w = (Uncaught e, st, w1)"
      using r(1) Inl by (simp add: w0_def)
    show ?thesis
      unfolding pr using Inl r t0 j
      by (intro exI [of _ "Read_row row # evs"] exI [of _ w1])
         (simp add: rows_read_append)
  next
    case (Inr st')
    obtain evs2 w2 where ih:
      "process_rows T hc st' rows w1 = (plan_exit st' rows, plan_state st' rows, w2)"
      "trace w2 = trace w1 @ evs2"
      "jobs_of evs2 = plan_jobs hc st' rows"
      "rows_read evs2 = take (plan_read st' rows) rows"
      "filter is_auth_report evs2 = []"
      "Open_csv \<notin> set evs2"
      "plan_jobs hc st' rows = [] \<longrightarrow> runs_of evs2 = [] \<and> files w2 = files w1 \<and> ext w2 = ext w1"
      using Cons.IH [of st' w1] by blast
    have pr: "process_rows T hc st (row # rows) w = (plan_exit st' rows, plan_state st' rows, w2)"
      using r(1) Inr ih(1) by (simp add: w0_def)
    show ?thesis
      unfolding pr using Inr r(2-) ih(2-) t0
      by (intro exI [of _ "Read_row row # evs @ evs2"] exI [of _ w2])
         (simp add: rows_read_append jobs_of_append runs_of_append)
  qed
qed

lemma has_auth_mkdir: "has_auth home (mkdir p w) = has_auth home w"
  by (simp add: has_auth_def path_exists_def mkdir_def emit_simps list_ex_iff)

lemma main_no_auth:
  assumes "\<not> has_auth home w"
  shows "main T home rows w
     = (Sys_exit 1, w\<lparr>trace := trace w @ [Mkdir (path_str wav_dir), Print MsgCookiesRequired]\<rparr>)"
proof -
  have a: "\<not> path_exists (mkdir wav_dir w) cookies_file"
    "\<not> list_ex (path_exists (mkdir wav_dir w)) (all_browser_paths home)"
    using assms has_auth_mkdir [of home wav_dir w] by (auto simp: has_auth_def)
  show ?thesis
    unfolding main_def Let_def using a
    by (simp add: print_def emit_def mkdir_def)
qed

lemma main_auth:
  assumes "has_auth home w"
  shows "\<exists>evs w'. main T home rows w = (plan_exit initial_state rows, w')
      \<and> trace w' = trace w @ [Mkdir (path_str wav_dir),
            Print (if path_exists w cookies_file
                   then MsgUsingCookiesFile (path_str cookies_file)
                   else MsgUsingBrowserCookies),
            Open_csv] @ evs
      \<and> jobs_of evs = plan_jobs (path_exists w cookies_file) initial_state rows
      \<and> rows_read evs = take (plan_read initial_state rows) rows
      \<and> filter is_auth_report evs = []
      \<and> Open_csv \<notin> set evs
      \<and> (plan_jobs (path_exists w cookies_file) initial_state rows = [] \<longrightarrow> runs_of evs = [])"
proof -
  define hc where "hc = path_exists w cookies_file"
  define w1 where "w1 = emit Open_csv ((if hc
                      then print (MsgUsingCookiesFile (path_str cookies_file)) (mkdir wav_dir w)
                      else print MsgUsingBrowserCookies (mkdir wav_dir w)))"
  have pe: "path_exists (mkdir wav_dir w) cookies_file = hc"
    by (simp add: hc_def path_exists_def mkdir_def emit_simps)
  have a: "\<not> (\<not> hc \<and> \<not> (if \<not> hc then list_ex (path_exists (mkdir wav_dir w)) (all_browser_paths home) else False))"
    using assms has_auth_mkdir [of home wav_dir w] by (auto simp: has_auth_def hc_def pe)
  have m: "main T home rows w = (case process_rows T hc initial_state rows w1 of
                 (ex, st, w2) \<Rightarrow> (ex, w2))"
    unfolding main_def Let_def pe w1_def using a by (cases hc) auto
  have t1: "trace w1 = trace w @ [Mkdir (path_str wav_dir),
            Print (if hc then MsgUsingCookiesFile (path_str cookies_file)
                   else MsgUsingBrowserCookies), Open_csv]"
    by (simp add: w1_def emit_simps print_simps mkdir_def)
  obtain evs w' where p:
    "process_rows T hc initial_state rows w1
        = (plan_exit initial_state rows, plan_state initial_state rows, w')"
    "trace w' = trace w1 @ evs"
    "jobs_of evs = plan_jobs hc initial_state rows"
    "rows_read evs = take (plan_read initial_state rows) rows"
    "filter is_auth_report evs = []"
    "Open_csv \<notin> set evs"
    "plan_jobs hc initial_state rows = [] \<longrightarrow> runs_of evs = [] \<and> files w' = files w1 \<and> ext w' = ext w1"
    using process_rows_plan [of T hc initial_state rows w1] by blast
  show ?thesis
    unfolding m p(1) hc_def [symmetric] using p(2-) t1
    by (intro exI [of _ evs] exI [of _ w']) simp
qed

lemma main_new_events_no_auth:
  assumes "\<not> has_auth home w"
  shows "fst (main T home rows w) = Sys_exit 1"
    and "new_events w (snd (main T home rows w)) = [Mkdir (path_str wav_dir), Print MsgCookiesRequired]"
    and "files (snd (main T home rows w)) = files w"
  by (simp_all add: main_no_auth [OF assms] new_events_def)


lemma row_cases:
  fixes row :: "string list" and st :: reader_state
  obtains (header) "is_header_row row"
  | (skip) "\<not> is_header_row row" "\<not> (active st \<and> data_row_ok row)"
  | (raise) e where "\<not> is_header_row row" "active st" "data_row_ok row"
      "row_times row = Inl e"
  | (job) a b where "\<not> is_header_row row" "active st" "data_row_ok row"
      "row_times row = Inr (a, b)"
proof (cases "is_header_row row")
  case True
  then show ?thesis by (rule header)
next
  case False
  show ?thesis
  proof (cases "active st \<and> data_row_ok row")
    case nok: False
    show ?thesis by (rule skip [OF False nok])
  next
    case True
    then have a: "active st" "data_row_ok row" by auto
    show ?thesis
    proof (cases "row_times row")
      case (Inl e)
      show ?thesis by (rule raise [OF False a Inl])
    next
      case (Inr ab)
      obtain x y where "ab = (x, y)" by (cases ab)
      show ?thesis by (rule job [OF False a Inr [unfolded \<open>ab = (x, y)\<close>]])
    qed
  qed
qed

lemma row_jobs_nonempty:
  assumes "row_jobs hc st row \<noteq> []"
  shows "\<not> is_header_row row \<and> active st \<and> data_row_ok row"
proof (cases rule: row_cases [where row = row and st = st])
  case header
  with assms row_step_header(2) show ?thesis by blast
next
  case skip
  with assms row_step_skip(2) show ?thesis by blast
next
  case (raise e)
  then show ?thesis by simp
next
  case (job a b)
  then show ?thesis by simp
qed


lemma plan_inactive:
  assumes "\<not> active st" and "\<forall>r \<in> set pre. \<not> is_header_row r"
  shows "plan_jobs hc st (pre @ rest) = plan_jobs hc st rest"
    and "plan_exit st (pre @ rest) = plan_exit st rest"
    and "plan_state st (pre @ rest) = plan_state st rest"
    and "plan_read st (pre @ rest) = length pre + plan_read st rest"
  using assms
  by (induction pre) (simp_all add: row_step_skip)


lemma not_active_cleared: "\<not> active (st\<lparr>prefix := None\<rparr>)" "\<not> active initial_state"
  by (simp_all add: active_def truthy_def initial_state_def)

lemma two_nonempty_cells:
  assumes "data_row_ok row"
  shows "2 \<le> length (filter (\<lambda>c. strip c \<noteq> []) row)"
proof -
  from assms obtain x y r where r: "row = x # y # r"
    by (cases row; cases "tl row") (auto simp: data_row_ok_def)
  with assms show ?thesis by (simp add: data_row_ok_def)
qed

lemma process_row_jobs:
  "jobs_of (new_events w (snd (process_row T hc st row w))) = row_jobs hc st row"
  using process_row_summary [of T hc st row w] by (auto simp: new_events_def)

lemma main_jobs:
  "jobs_of (new_events w (snd (main T home rows w)))
     = (if has_auth home w then plan_jobs (path_exists w cookies_file) initial_state rows else [])"
proof (cases "has_auth home w")
  case False
  then show ?thesis by (simp add: main_new_events_no_auth)
next
  case True
  from main_auth [OF True, of T rows] True show ?thesis
    by (auto simp: new_events_def jobs_of_append)
qed



lemma next_index_update:
  "next_index (c(k \<mapsto> next_index c k)) v = (if v = k then Suc (next_index c k) else next_index c v)"
  by (simp add: next_index_def)




lemma process_rows_exit:
  "fst (process_rows T hc st rows w) = plan_exit st rows"
  "fst (snd (process_rows T hc st rows w)) = plan_state st rows"
  using process_rows_plan [of T hc st rows w] by auto

lemma main_exit:
  "fst (main T home rows w)
     = (if has_auth home w then plan_exit initial_state rows else Sys_exit 1)"
proof (cases "has_auth home w")
  case False
  then show ?thesis by (simp add: main_new_events_no_auth)
next
  case True
  from main_auth [OF True, of T rows] True show ?thesis by auto
qed

lemma main_rows_read:
  "rows_read (new_events w (snd (main T home rows w)))
     = (if has_auth home w then take (plan_read initial_state rows) rows else [])"
proof (cases "has_auth home w")
  case False
  then show ?thesis by (simp add: main_new_events_no_auth)
next
  case True
  from main_auth [OF True, of T rows] True show ?thesis
    by (auto simp: new_events_def rows_read_append)
qed

section \<open>Claims about the time parser\<close>

text \<open>
  Claim C4, as amended.  A token with at most three \<open>:\<close>-separated components fails with
  \<open>ValueError\<close> as soon as one of its components is not numeric.  A token with more than
  three components is read through the final \<open>else\<close> branch: only its first component is
  converted, so the call fails exactly when that first component is not numeric, and
  otherwise returns its value, whatever the other components are.
\<close>

theorem time_to_seconds_component_count:
  "(length (split_on CHR '':'' t) \<le> 3 \<and> (\<exists>p \<in> set (split_on CHR '':'' t). py_int p = None)
      \<longrightarrow> time_to_seconds t = Inl ValueError)
   \<and> (3 < length (split_on CHR '':'' t)
      \<longrightarrow> time_to_seconds t =
          (case py_int (hd (split_on CHR '':'' t)) of
             None \<Rightarrow> Inl ValueError
           | Some v \<Rightarrow> Inr v))"
proof (intro conjI impI)
  assume a: "length (split_on CHR '':'' t) \<le> 3 \<and> (\<exists>p \<in> set (split_on CHR '':'' t). py_int p = None)"
  obtain x xs where s: "split_on CHR '':'' t = x # xs"
    using split_on_nonempty [of "CHR '':''" t] by (cases "split_on CHR '':'' t") auto
  from a s consider "xs = []" | y where "xs = [y]" | y z where "xs = [y, z]"
    by (cases xs; cases "tl xs"; cases "tl (tl xs)") auto
  then show "time_to_seconds t = Inl ValueError"
  proof cases
    case 1
    with a s show ?thesis by (auto simp: time_to_seconds_def)
  next
    case 2
    with a s show ?thesis by (auto simp: time_to_seconds_def split: option.splits)
  next
    case 3
    with a s show ?thesis by (auto simp: time_to_seconds_def split: option.splits)
  qed
next
  assume a: "3 < length (split_on CHR '':'' t)"
  then have "split_on CHR '':'' t ! 0 = hd (split_on CHR '':'' t)"
    by (cases "split_on CHR '':'' t") auto
  with a show "time_to_seconds t =
          (case py_int (hd (split_on CHR '':'' t)) of
             None \<Rightarrow> Inl ValueError
           | Some v \<Rightarrow> Inr v)"
    by (simp add: time_to_seconds_def split: option.splits)
qed

text \<open>The amended claim C4 at a two-part token with a bad component and at a four-part token.\<close>

theorem time_to_seconds_component_count_witness:
  "time_to_seconds ''4:x5'' = Inl ValueError \<and> time_to_seconds ''1:2:3:4'' = Inr 1"
proof -
  have p: "py_int ''x5'' = None" "py_int ''1'' = Some 1"
    by code_simp+
  have s: "split_on CHR '':'' ''4:x5'' = [''4'', ''x5'']"
     "split_on CHR '':'' ''1:2:3:4'' = [''1'', ''2'', ''3'', ''4'']" by simp_all
  show ?thesis
    using time_to_seconds_component_count [of "''4:x5''"]
      time_to_seconds_component_count [of "''1:2:3:4''"] p
    unfolding s by simp
qed

text \<open>
  Claim C4 as stated fails: a token with four components returns a number, also when its
  later components are not numeric.
\<close>

theorem time_to_seconds_four_parts_counterexample:
  "time_to_seconds ''1:2:3:4'' = Inr 1 \<and> time_to_seconds ''7:x:y:z'' = Inr 7
   \<and> length (split_on CHR '':'' ''7:x:y:z'') = 4 \<and> py_int ''x'' = None"
  by code_simp

text \<open>
  Claim C9, as amended.  For a token with at most three components, each a non-negative
  number for \<open>int\<close>, \<open>time_to_seconds\<close> returns a non-negative integer \<open>n\<close>.  When the
  hour count \<open>n div 3600\<close> has at most \<open>max_str_digits\<close> decimal digits, \<open>format_time\<close> returns
  a display form and parsing that form gives \<open>n\<close> again; below 3600 the form is \<open>MM:SS\<close>,
  two fields of width two, and from 3600 on it is \<open>HH:MM:SS\<close>, the hour field at least two
  wide.  When the hour count has more digits, \<open>format_time\<close> raises \<open>ValueError\<close>.
\<close>

theorem time_roundtrip_within_digit_limit:
  assumes "length (split_on CHR '':'' t) \<le> 3"
    and "\<forall>p \<in> set (split_on CHR '':'' t). \<exists>v. py_int p = Some v \<and> 0 \<le> v"
  shows "\<exists>n. time_to_seconds t = Inr n \<and> 0 \<le> n
           \<and> (n div 3600 < 10 ^ max_str_digits \<longrightarrow>
                format_time_limited n = Inr (format_time n)
                \<and> time_to_seconds (format_time n) = Inr n
                \<and> (n < 3600 \<longrightarrow> length (format_time n) = 5
                     \<and> format_time n = fmt_02d (n div 60) @ '':'' @ fmt_02d (n mod 60)
                     \<and> length (fmt_02d (n div 60)) = 2 \<and> length (fmt_02d (n mod 60)) = 2)
                \<and> (3600 \<le> n \<longrightarrow>
                     format_time n = fmt_02d (n div 3600) @ '':'' @ fmt_02d (n mod 3600 div 60)
                                       @ '':'' @ fmt_02d (n mod 60)
                     \<and> 2 \<le> length (fmt_02d (n div 3600))
                     \<and> length (fmt_02d (n mod 3600 div 60)) = 2
                     \<and> length (fmt_02d (n mod 60)) = 2))
           \<and> (10 ^ max_str_digits \<le> n div 3600 \<longrightarrow> format_time_limited n = Inl ValueError)"
proof -
  obtain x xs where s: "split_on CHR '':'' t = x # xs"
    using split_on_nonempty [of "CHR '':''" t] by (cases "split_on CHR '':'' t") auto
  from assms(1) s consider "xs = []" | y where "xs = [y]" | y z where "xs = [y, z]"
    by (cases xs; cases "tl xs"; cases "tl (tl xs)") auto
  then obtain n where n: "time_to_seconds t = Inr n" "0 \<le> n"
  proof cases
    case 1
    with assms(2) s that show ?thesis by (auto simp: time_to_seconds_def)
  next
    case 2
    with assms(2) s obtain a b where "py_int x = Some a" "0 \<le> a" "py_int y = Some b" "0 \<le> b"
      by auto
    with 2 s that [of "a * 60 + b"] show ?thesis by (simp add: time_to_seconds_def)
  next
    case 3
    with assms(2) s obtain a b c where
      "py_int x = Some a" "0 \<le> a" "py_int y = Some b" "0 \<le> b" "py_int z = Some c" "0 \<le> c"
      by auto
    with 3 s that [of "a * 3600 + b * 60 + c"] show ?thesis by (simp add: time_to_seconds_def)
  qed
  have h0: "0 \<le> n div 3600" using n(2) by simp
  note tl = too_long_iff [OF h0]
  have small: "n < 3600 \<Longrightarrow> length (fmt_02d (n div 60)) = 2"
    using n(2) by (intro fmt_02d_small) auto
  have ss: "length (fmt_02d (n mod 60)) = 2" "length (fmt_02d (n mod 3600 div 60)) = 2"
    by (intro fmt_02d_small; simp)+
  have h: "n div 3600 > 0 \<longleftrightarrow> \<not> n < 3600" using n(2) by (auto simp: pos_imp_zdiv_pos_iff)
  have m: "n < 3600 \<Longrightarrow> (n mod 3600) div 60 = n div 60" using n(2) by simp
  have hh: "2 \<le> length (fmt_02d (n div 3600))" using n(2) by (intro fmt_02d_digits(4)) simp
  have f1: "n < 3600 \<Longrightarrow> format_time n = fmt_02d (n div 60) @ '':'' @ fmt_02d (n mod 60)"
    using h m by (simp add: format_time_def Let_def)
  have f2: "3600 \<le> n \<Longrightarrow> format_time n = fmt_02d (n div 3600) @ '':'' @ fmt_02d (n mod 3600 div 60)
                                  @ '':'' @ fmt_02d (n mod 60)"
    using h by (simp add: format_time_def Let_def)
  have ok: "n div 3600 < 10 ^ max_str_digits \<Longrightarrow>
      format_time_limited n = Inr (format_time n) \<and> time_to_seconds (format_time n) = Inr n"
    using format_time_limited_ok [OF n(2)] time_to_seconds_format_time [OF n(2)] tl by simp
  have bad: "10 ^ max_str_digits \<le> n div 3600 \<Longrightarrow> format_time_limited n = Inl ValueError"
    using format_time_limited_raises [OF n(2)] tl by simp
  show ?thesis
    using n ok bad small ss hh f1 f2
    by (intro exI [of _ n]) simp
qed

text \<open>Claim C9, as amended, at the token \<open>4:15\<close>, whose display form is \<open>04:15\<close>.\<close>

theorem time_roundtrip_within_digit_limit_witness:
  "time_to_seconds ''4:15'' = Inr 255 \<and> format_time_limited 255 = Inr ''04:15''
   \<and> time_to_seconds ''04:15'' = Inr 255"
proof -
  have s: "split_on CHR '':'' ''4:15'' = [''4'', ''15'']" by simp
  have p: "py_int ''4'' = Some 4" "py_int ''15'' = Some 15" by code_simp+
  have t: "time_to_seconds ''4:15'' = Inr 255" by (simp add: time_to_seconds_def p)
  have f: "format_time 255 = ''04:15''" by code_simp
  have l: "(255::int) div 3600 < 10 ^ max_str_digits" by simp
  from time_roundtrip_within_digit_limit [of "''4:15''"] show ?thesis
    unfolding s using p t f l by auto
qed

text \<open>
  Claim C9 as stated fails.  The token of \<open>max_str_digits\<close> nines, a colon, 60, a colon and
  0 has three components that \<open>int\<close> accepts, none negative, and \<open>time_to_seconds\<close> returns
  a non-negative integer for it; its hour count has one digit more than the interpreter
  renders, so \<open>format_time\<close> raises \<open>ValueError\<close> instead of giving a display form.
\<close>

theorem time_roundtrip_digit_limit_counterexample:
  "split_on CHR '':'' (replicate max_str_digits CHR ''9'' @ '':60:0'')
     = [replicate max_str_digits CHR ''9'', ''60'', ''0'']
   \<and> py_int (replicate max_str_digits CHR ''9'') = Some (10 ^ max_str_digits - 1)
   \<and> py_int ''60'' = Some 60 \<and> py_int ''0'' = Some 0
   \<and> time_to_seconds (replicate max_str_digits CHR ''9'' @ '':60:0'')
        = Inr (3600 * 10 ^ max_str_digits)
   \<and> format_time_limited (3600 * 10 ^ max_str_digits) = Inl ValueError"
proof -
  have k: "0 < max_str_digits" "max_str_digits \<le> max_str_digits"
    using max_str_digits_pos by simp_all
  have p: "py_int ''60'' = Some 60" "py_int ''0'' = Some 0" by code_simp+
  have h: "(3600 * 10 ^ max_str_digits) div 3600 = (10::int) ^ max_str_digits" by simp
  have "too_long ((3600 * 10 ^ max_str_digits) div 3600)"
    unfolding h by (simp add: too_long_iff)
  then have f: "format_time_limited (3600 * 10 ^ max_str_digits) = Inl ValueError"
    by (intro format_time_limited_raises) simp_all
  show ?thesis
    by (intro conjI time_to_seconds_nines [OF k] py_int_nines [OF k] p f)
qed

section \<open>Claims about the segment acquirer\<close>

text \<open>
  Claim C1.  The methods are the stored-credential attempt, present exactly when a
  credential path was passed and that file exists, followed by the three browser
  attempts in the order chrome, safari, firefox.  With \<open>k\<close> the number of attempts that leave
  no non-empty temporary artifact before the first one that does, the commands run by the
  acquirer are the first \<open>k + 1\<close> methods, in order, followed by the transcode command
  exactly when one attempt left such an artifact.  Replacing the exit statuses that the
  fetch tool reports by any others changes neither the commands run nor the resulting
  files: only the presence of the artifact ends the loop.
\<close>

theorem fetch_attempts_in_order_until_artifact:
  fixes T :: "'e tool" and w :: "'e world"
  shows
  "(let temp = path_str (temp_path_of out vid);
        ms = download_methods w ck temp (url_of vid);
        k = failed_before T temp ms (ext w) (files w);
        trim = trim_cmd temp (format_time s) (e - s) (path_str out);
        w' = snd (download_youtube_segment T vid s e out ck w);
        w'' = snd (download_youtube_segment (restatus g T) vid s e out ck w)
    in ms = (case ck of
               None \<Rightarrow> []
             | Some c \<Rightarrow> if c \<noteq> [] \<and> files w c \<noteq> None
                         then [cookie_method c temp (url_of vid)] else [])
            @ [browser_method ''chrome'' temp (url_of vid),
               browser_method ''safari'' temp (url_of vid),
               browser_method ''firefox'' temp (url_of vid)]
       \<and> runs_of (new_events w w') = take (Suc k) ms @ (if k < length ms then [trim] else [])
       \<and> runs_of (new_events w w'') = runs_of (new_events w w')
       \<and> files w'' = files w')"
proof -
  define temp where "temp = path_str (temp_path_of out vid)"
  define ms where "ms = download_methods w ck temp (url_of vid)"
  define k where "k = failed_before T temp ms (ext w) (files w)"
  define trim where "trim = trim_cmd temp (format_time s) (e - s) (path_str out)"
  define sk where "sk = fetch_states T ms (ext w) (files w) ! k"
  obtain evs ok w' where a: "download_youtube_segment T vid s e out ck w = (ok, w')"
    "trace w' = trace w @ evs"
    "runs_of evs = take (Suc k) ms @ (if k < length ms then [trim] else [])"
    "\<not> k < length ms \<longrightarrow> files w' = (snd (last (fetch_states T ms (ext w) (files w))))(temp := None)"
    "k < length ms \<longrightarrow> files w' = (snd (snd (T trim (fst sk) (snd sk))))(temp := None)"
    using download_run [of T vid s e out ck w]
    unfolding temp_def [symmetric] ms_def [symmetric] k_def [symmetric] trim_def [symmetric]
      sk_def [symmetric]
    by blast
  obtain evs2 ok2 w2 where b: "download_youtube_segment (restatus g T) vid s e out ck w = (ok2, w2)"
    "trace w2 = trace w @ evs2"
    "runs_of evs2 = take (Suc k) ms @ (if k < length ms then [trim] else [])"
    "\<not> k < length ms \<longrightarrow> files w2 = (snd (last (fetch_states T ms (ext w) (files w))))(temp := None)"
    "k < length ms \<longrightarrow> files w2 = (snd (snd (restatus g T trim (fst sk) (snd sk))))(temp := None)"
    using download_run [of "restatus g T" vid s e out ck w]
    unfolding temp_def [symmetric] ms_def [symmetric] failed_before_restatus fetch_states_restatus
      k_def [symmetric] trim_def [symmetric] sk_def [symmetric]
    by blast
  have m: "ms = (case ck of
               None \<Rightarrow> []
             | Some c \<Rightarrow> if c \<noteq> [] \<and> files w c \<noteq> None
                         then [cookie_method c temp (url_of vid)] else [])
            @ [browser_method ''chrome'' temp (url_of vid),
               browser_method ''safari'' temp (url_of vid),
               browser_method ''firefox'' temp (url_of vid)]"
    by (simp add: ms_def download_methods_def browsers_def)
  have fl: "files w2 = files w'"
  proof (cases "k < length ms")
    case True
    with a(5) b(5) show ?thesis by (simp add: restatus_def)
  next
    case False
    with a(4) b(4) show ?thesis by simp
  qed
  show ?thesis
    unfolding Let_def temp_def [symmetric] ms_def [symmetric] k_def [symmetric]
      trim_def [symmetric] a(1) b(1)
    using m fl a(2,3) b(2,3) by (simp add: new_events_def)
qed


text \<open>
  Claim C1 at a fetch tool that always reports a non-zero status and leaves an artifact at
  the third attempt: the stored-credential attempt and two browser attempts run, then the
  transcode command.
\<close>

theorem fetch_attempts_in_order_until_artifact_witness:
  "runs_of (new_events world_cookies
      (snd (download_youtube_segment tool_tolerant ''abcdefghijk'' 255 375 example_out
              (Some (path_str cookies_file)) world_cookies)))
     = [cookie_method (path_str cookies_file)
          (path_str (temp_path_of example_out ''abcdefghijk'')) (url_of ''abcdefghijk''),
        browser_method ''chrome''
          (path_str (temp_path_of example_out ''abcdefghijk'')) (url_of ''abcdefghijk''),
        browser_method ''safari''
          (path_str (temp_path_of example_out ''abcdefghijk'')) (url_of ''abcdefghijk''),
        trim_cmd (path_str (temp_path_of example_out ''abcdefghijk'')) ''04:15'' 120
          (path_str example_out)]
   \<and> fst (tool_tolerant
             (browser_method ''safari''
                (path_str (temp_path_of example_out ''abcdefghijk'')) (url_of ''abcdefghijk''))
             () (files world_cookies)) \<noteq> Completed
   \<and> runs_of (new_events world_cookies
        (snd (download_youtube_segment (restatus (\<lambda>c. Completed) tool_tolerant) ''abcdefghijk''
                255 375 example_out (Some (path_str cookies_file)) world_cookies)))
      = runs_of (new_events world_cookies
          (snd (download_youtube_segment tool_tolerant ''abcdefghijk'' 255 375 example_out
                  (Some (path_str cookies_file)) world_cookies)))"
proof -
  have k: "failed_before tool_tolerant (path_str (temp_path_of example_out ''abcdefghijk''))
             (download_methods world_cookies (Some (path_str cookies_file))
                (path_str (temp_path_of example_out ''abcdefghijk'')) (url_of ''abcdefghijk''))
             (ext world_cookies) (files world_cookies) = 2"
    by code_simp
  have c: "path_str cookies_file \<noteq> [] \<and> files world_cookies (path_str cookies_file) \<noteq> None"
    by code_simp
  have f: "format_time 255 = ''04:15''" by code_simp
  have t: "fst (tool_tolerant
             (browser_method ''safari''
                (path_str (temp_path_of example_out ''abcdefghijk'')) (url_of ''abcdefghijk''))
             () (files world_cookies)) \<noteq> Completed"
    by code_simp
  show ?thesis
    using fetch_attempts_in_order_until_artifact [where w = world_cookies
        and ck = "Some (path_str cookies_file)" and out = example_out and vid = "''abcdefghijk''"
        and T = tool_tolerant and s = 255 and e = 375 and g = "\<lambda>c. Completed"]
    unfolding Let_def k using c f t by simp
qed

text \<open>
  Claim C2.  When no fetch attempt leaves a non-empty temporary artifact, the acquirer
  returns \<open>False\<close>, has printed the failure for the video, leaves no file at the temporary
  path, has run exactly the fetch methods, and has not run the transcode command.
\<close>

theorem fetch_exhaustion_reports_failure:
  fixes T :: "'e tool" and w :: "'e world"
  assumes "\<forall>st \<in> set (fetch_states T
                (download_methods w ck (path_str (temp_path_of out vid)) (url_of vid))
                (ext w) (files w)).
             \<not> has_artifact (path_str (temp_path_of out vid)) st"
  shows "fst (download_youtube_segment T vid s e out ck w) = False
     \<and> files (snd (download_youtube_segment T vid s e out ck w))
          (path_str (temp_path_of out vid)) = None
     \<and> Print (MsgErrorDownloading vid)
          \<in> set (new_events w (snd (download_youtube_segment T vid s e out ck w)))
     \<and> runs_of (new_events w (snd (download_youtube_segment T vid s e out ck w)))
          = download_methods w ck (path_str (temp_path_of out vid)) (url_of vid)
     \<and> \<not> list_ex is_transcode
            (runs_of (new_events w (snd (download_youtube_segment T vid s e out ck w))))"
proof -
  define temp where "temp = path_str (temp_path_of out vid)"
  define ms where "ms = download_methods w ck temp (url_of vid)"
  have k: "failed_before T temp ms (ext w) (files w) = length ms"
    using assms unfolding failed_before_def temp_def [symmetric] ms_def [symmetric]
    by (simp add: length_fetch_states takeWhile_eq_all_conv [THEN iffD2])
  obtain evs ok w' where a: "download_youtube_segment T vid s e out ck w = (ok, w')"
    "trace w' = trace w @ evs"
    "runs_of evs = ms"
    "\<not> ok" "files w' temp = None" "Print (MsgErrorDownloading vid) \<in> set evs"
    using download_run [of T vid s e out ck w]
    unfolding temp_def [symmetric] ms_def [symmetric] k
    by auto
  have nt: "\<not> list_ex is_transcode ms"
    using download_methods_not_transcode [of _ w ck temp "url_of vid"]
    by (auto simp: ms_def list_ex_iff)
  show ?thesis
    unfolding temp_def [symmetric] ms_def [symmetric] a(1)
    using a nt by (simp add: new_events_def)
qed

text \<open>Claim C2 at a fetch tool that never writes anything: four fetch attempts, no transcode.\<close>

theorem fetch_exhaustion_reports_failure_witness:
  "list_all (\<lambda>st. \<not> has_artifact (path_str (temp_path_of example_out ''abcdefghijk'')) st)
       (fetch_states tool_nothing
                (download_methods world_cookies (Some (path_str cookies_file))
                   (path_str (temp_path_of example_out ''abcdefghijk'')) (url_of ''abcdefghijk''))
                (ext world_cookies) (files world_cookies))
   \<and> fst (download_youtube_segment tool_nothing ''abcdefghijk'' 255 375 example_out
            (Some (path_str cookies_file)) world_cookies) = False
   \<and> length (runs_of (new_events world_cookies
        (snd (download_youtube_segment tool_nothing ''abcdefghijk'' 255 375 example_out
            (Some (path_str cookies_file)) world_cookies)))) = 4
   \<and> \<not> list_ex is_transcode (runs_of (new_events world_cookies
        (snd (download_youtube_segment tool_nothing ''abcdefghijk'' 255 375 example_out
            (Some (path_str cookies_file)) world_cookies))))"
proof -
  have h: "\<forall>st \<in> set (fetch_states tool_nothing
                (download_methods world_cookies (Some (path_str cookies_file))
                   (path_str (temp_path_of example_out ''abcdefghijk'')) (url_of ''abcdefghijk''))
                (ext world_cookies) (files world_cookies)).
             \<not> has_artifact (path_str (temp_path_of example_out ''abcdefghijk'')) st"
    by code_simp
  have n: "length (download_methods world_cookies (Some (path_str cookies_file))
                   (path_str (temp_path_of example_out ''abcdefghijk'')) (url_of ''abcdefghijk'')) = 4"
    by code_simp
  note r = fetch_exhaustion_reports_failure [OF h, of 255 375]
  from r have r1: "fst (download_youtube_segment tool_nothing ''abcdefghijk'' 255 375 example_out
            (Some (path_str cookies_file)) world_cookies) = False" by (rule conjunct1)
  from r have r4: "runs_of (new_events world_cookies
        (snd (download_youtube_segment tool_nothing ''abcdefghijk'' 255 375 example_out
            (Some (path_str cookies_file)) world_cookies)))
      = download_methods world_cookies (Some (path_str cookies_file))
                   (path_str (temp_path_of example_out ''abcdefghijk'')) (url_of ''abcdefghijk'')"
    by blast
  from r have r5: "\<not> list_ex is_transcode (runs_of (new_events world_cookies
        (snd (download_youtube_segment tool_nothing ''abcdefghijk'' 255 375 example_out
            (Some (path_str cookies_file)) world_cookies))))" by blast
  have r4': "length (runs_of (new_events world_cookies
        (snd (download_youtube_segment tool_nothing ''abcdefghijk'' 255 375 example_out
            (Some (path_str cookies_file)) world_cookies)))) = 4"
    unfolding r4 by (rule n)
  show ?thesis
    by (intro conjI h [folded list_all_iff] r1 r4' r5)
qed

section \<open>Claims about the run\<close>

text \<open>
  Claim C8.  When neither the stored credential file nor one of the browser credential
  directories exists, \<open>main\<close> ends with \<open>sys.exit(1)\<close> after creating the output root and
  printing the error: no row is read, no Job is started, no command is run and no file
  changes.  In every run the outcome of the credential check is reported exactly once; when
  a source exists the report comes before the manifest is opened, and the manifest is
  opened once.  (The acquirer looks at the stored credential file again for each Job in
  order to choose its methods; that is not this check.)
\<close>

theorem auth_check_once_before_manifest:
  "(\<not> has_auth home w \<longrightarrow>
      fst (main T home rows w) = Sys_exit 1
      \<and> new_events w (snd (main T home rows w))
           = [Mkdir (path_str wav_dir), Print MsgCookiesRequired]
      \<and> rows_read (new_events w (snd (main T home rows w))) = []
      \<and> jobs_of (new_events w (snd (main T home rows w))) = []
      \<and> runs_of (new_events w (snd (main T home rows w))) = []
      \<and> files (snd (main T home rows w)) = files w)
   \<and> (has_auth home w \<longrightarrow>
        take 3 (new_events w (snd (main T home rows w)))
          = [Mkdir (path_str wav_dir),
             Print (if path_exists w cookies_file
                    then MsgUsingCookiesFile (path_str cookies_file)
                    else MsgUsingBrowserCookies),
             Open_csv]
        \<and> Open_csv \<notin> set (drop 3 (new_events w (snd (main T home rows w)))))
   \<and> length (filter is_auth_report (new_events w (snd (main T home rows w)))) = 1"
proof (cases "has_auth home w")
  case False
  then show ?thesis
    by (simp add: main_new_events_no_auth)
next
  case True
  obtain evs w' where m: "main T home rows w = (plan_exit initial_state rows, w')"
    "trace w' = trace w @ [Mkdir (path_str wav_dir),
            Print (if path_exists w cookies_file
                   then MsgUsingCookiesFile (path_str cookies_file)
                   else MsgUsingBrowserCookies),
            Open_csv] @ evs"
    "filter is_auth_report evs = []" "Open_csv \<notin> set evs"
    using main_auth [OF True, of T rows] by blast
  show ?thesis
    unfolding m(1) using True m(2-)
    by (simp add: new_events_def)
qed

text \<open>Claim C8 in a world without any credential source and in one with the stored file.\<close>

theorem auth_check_once_before_manifest_witness:
  "\<not> has_auth ''/home/u'' world_bare
   \<and> fst (main tool_nothing ''/home/u''
            [[''id (A)''], [''abcdefghijk'', ''0:01-0:02'']] world_bare) = Sys_exit 1
   \<and> rows_read (new_events world_bare (snd (main tool_nothing ''/home/u''
            [[''id (A)''], [''abcdefghijk'', ''0:01-0:02'']] world_bare))) = []
   \<and> has_auth ''/home/u'' world_cookies
   \<and> length (filter is_auth_report (new_events world_cookies (snd (main tool_nothing ''/home/u''
            [[''id (A)''], [''abcdefghijk'', ''0:01-0:02'']] world_cookies)))) = 1"
proof -
  have a: "\<not> has_auth ''/home/u'' world_bare" by code_simp
  have b: "has_auth ''/home/u'' world_cookies" by code_simp
  show ?thesis
    using a b
      auth_check_once_before_manifest [of "''/home/u''" world_bare tool_nothing
        "[[''id (A)''], [''abcdefghijk'', ''0:01-0:02'']]"]
      auth_check_once_before_manifest [of "''/home/u''" world_cookies tool_nothing
        "[[''id (A)''], [''abcdefghijk'', ''0:01-0:02'']]"]
    by simp
qed

text \<open>
  Claim C10.  A data row that passes the checks and whose times parse yields a Job whose
  segment number is the advanced counter of its reference; the call of the acquirer
  comes after the three prints and before any command is run, and the reader state for
  the next row holds the advanced counter whatever the acquirer returns, so the next Job
  of the reference gets the next higher number.  The Jobs of a run and the way the run
  ends are the same for any two tools.
\<close>

theorem counter_advances_whatever_the_outcome:
  fixes T T' :: "'e tool" and w :: "'e world"
  shows
  "(\<not> is_header_row row \<and> active st \<and> data_row_ok row
      \<and> row_times row = Inr (a, b) \<longrightarrow>
        fst (process_row T hc st row w)
          = Inr (st\<lparr>video_id_counts :=
                     (video_id_counts st)(strip (row ! 0) \<mapsto>
                        next_index (video_id_counts st) (strip (row ! 0)))\<rparr>)
        \<and> job_seg_num (row_job hc st row a b) = next_index (video_id_counts st) (strip (row ! 0))
        \<and> (\<forall>st'. fst (process_row T hc st row w) = Inr st' \<longrightarrow>
              next_index (video_id_counts st') (strip (row ! 0))
                = next_index (video_id_counts st) (strip (row ! 0)) + 1)
        \<and> (\<exists>evs. new_events w (snd (process_row T hc st row w))
               = [Print (MsgProcessing (strip (row ! 0)) (strip (row ! 1))),
                  Print (MsgStartEnd a b),
                  Print (MsgOutput (path_str (job_output_path (row_job hc st row a b)))),
                  Call_download (row_job hc st row a b)] @ evs
             \<and> list_all is_acquirer_event evs))
   \<and> jobs_of (new_events w (snd (main T home rows w)))
        = jobs_of (new_events w (snd (main T' home rows w)))
   \<and> fst (main T home rows w) = fst (main T' home rows w)"
proof (intro conjI impI)
  assume h: "\<not> is_header_row row \<and> active st \<and> data_row_ok row
      \<and> row_times row = Inr (a, b)"
  then have h': "\<not> is_header_row row" "active st" "data_row_ok row"
    "row_times row = Inr (a, b)" by auto
  note pr = process_row_job [OF h', of T hc w]
  show "fst (process_row T hc st row w)
          = Inr (st\<lparr>video_id_counts :=
                     (video_id_counts st)(strip (row ! 0) \<mapsto>
                        next_index (video_id_counts st) (strip (row ! 0)))\<rparr>)"
    unfolding pr by simp
  show "job_seg_num (row_job hc st row a b) = next_index (video_id_counts st) (strip (row ! 0))"
    by (simp add: row_job_def)
  show "\<forall>st'. fst (process_row T hc st row w) = Inr st' \<longrightarrow>
              next_index (video_id_counts st') (strip (row ! 0))
                = next_index (video_id_counts st) (strip (row ! 0)) + 1"
    unfolding pr by (auto simp add: next_index_update)
  define w0 where "w0 = emit (Call_download (row_job hc st row a b))
                (print (MsgOutput (path_str (job_output_path (row_job hc st row a b))))
                   (print (MsgStartEnd a b)
                      (print (MsgProcessing (strip (row ! 0)) (strip (row ! 1))) w)))"
  obtain evs where e: "trace (snd (download_youtube_segment T (strip (row ! 0)) a b
             (job_output_path (row_job hc st row a b)) (job_cookies (row_job hc st row a b)) w0))
        = trace w0 @ evs" "list_all is_acquirer_event evs"
    using download_events by blast
  have t0: "trace w0 = trace w @ [Print (MsgProcessing (strip (row ! 0)) (strip (row ! 1))),
                  Print (MsgStartEnd a b),
                  Print (MsgOutput (path_str (job_output_path (row_job hc st row a b)))),
                  Call_download (row_job hc st row a b)]"
    by (simp add: w0_def emit_simps print_simps)
  show "\<exists>evs. new_events w (snd (process_row T hc st row w))
               = [Print (MsgProcessing (strip (row ! 0)) (strip (row ! 1))),
                  Print (MsgStartEnd a b),
                  Print (MsgOutput (path_str (job_output_path (row_job hc st row a b)))),
                  Call_download (row_job hc st row a b)] @ evs
             \<and> list_all is_acquirer_event evs"
    unfolding pr w0_def [symmetric] using e t0
    by (intro exI [of _ evs]) (simp add: new_events_def)
next
  show "jobs_of (new_events w (snd (main T home rows w)))
        = jobs_of (new_events w (snd (main T' home rows w)))"
  proof (cases "has_auth home w")
    case False
    then show ?thesis by (simp add: main_new_events_no_auth)
  next
    case True
    obtain evs w1 where m: "main T home rows w = (plan_exit initial_state rows, w1)"
      "trace w1 = trace w @ [Mkdir (path_str wav_dir),
            Print (if path_exists w cookies_file
                   then MsgUsingCookiesFile (path_str cookies_file)
                   else MsgUsingBrowserCookies),
            Open_csv] @ evs"
      "jobs_of evs = plan_jobs (path_exists w cookies_file) initial_state rows"
      using main_auth [OF True, of T rows] by blast
    obtain evs' w2 where m': "main T' home rows w = (plan_exit initial_state rows, w2)"
      "trace w2 = trace w @ [Mkdir (path_str wav_dir),
            Print (if path_exists w cookies_file
                   then MsgUsingCookiesFile (path_str cookies_file)
                   else MsgUsingBrowserCookies),
            Open_csv] @ evs'"
      "jobs_of evs' = plan_jobs (path_exists w cookies_file) initial_state rows"
      using main_auth [OF True, of T' rows] by blast
    show ?thesis
      unfolding m(1) m'(1) using m(2-) m'(2-)
      by (simp add: new_events_def jobs_of_append)
  qed
next
  show "fst (main T home rows w) = fst (main T' home rows w)"
  proof (cases "has_auth home w")
    case False
    then show ?thesis by (simp add: main_new_events_no_auth)
  next
    case True
    from main_auth [OF True, of T rows] main_auth [OF True, of T' rows]
    show ?thesis by auto
  qed
qed

text \<open>
  Claim C10 where the fetch fails for the first Job of a reference and succeeds for the
  second: the Jobs get the segment numbers 2 and 3, the output of segment 2 is missing and
  that of segment 3 exists.
\<close>

theorem counter_advances_whatever_the_outcome_witness:
  "(let w' = snd (snd (process_rows tool_late False state_A
                 [[''abcdefghijk'', ''0:01-0:02''], [''abcdefghijk'', ''0:03-0:04'']]
                 world_browser))
    in map (\<lambda>j. (job_seg_num j, files w' (path_str (job_output_path j))))
         (jobs_of (new_events world_browser w')))
     = [(2, None), (3, Some 50)]
   \<and> active state_A \<and> data_row_ok [''abcdefghijk'', ''0:01-0:02'']
   \<and> row_times [''abcdefghijk'', ''0:01-0:02''] = Inr (1, 2)
   \<and> video_id_counts
        (case fst (process_row tool_late False state_A [''abcdefghijk'', ''0:01-0:02'']
                     world_browser) of
           Inr s \<Rightarrow> s | Inl e \<Rightarrow> state_A) ''abcdefghijk'' = Some 2
   \<and> jobs_of (new_events world_browser (snd (main tool_late ''/home/u''
       [[''id (A)''], [''abcdefghijk'', ''0:01-0:02''], [''abcdefghijk'', ''0:03-0:04'']]
       world_browser)))
     = jobs_of (new_events world_browser (snd (main (\<lambda>c e f. (Completed, e, f)) ''/home/u''
       [[''id (A)''], [''abcdefghijk'', ''0:01-0:02''], [''abcdefghijk'', ''0:03-0:04'']]
       world_browser)))"
proof -
  have a: "(let w' = snd (snd (process_rows tool_late False state_A
                 [[''abcdefghijk'', ''0:01-0:02''], [''abcdefghijk'', ''0:03-0:04'']]
                 world_browser))
    in map (\<lambda>j. (job_seg_num j, files w' (path_str (job_output_path j))))
         (jobs_of (new_events world_browser w')))
     = [(2, None), (3, Some 50)]"
    by code_simp
  have h: "\<not> is_header_row [''abcdefghijk'', ''0:01-0:02''] \<and> active state_A
      \<and> data_row_ok [''abcdefghijk'', ''0:01-0:02'']
      \<and> row_times [''abcdefghijk'', ''0:01-0:02''] = Inr (1, 2)"
    by code_simp
  have n: "strip ([''abcdefghijk'', ''0:01-0:02''] ! 0) = ''abcdefghijk''"
    "next_index (video_id_counts state_A) ''abcdefghijk'' = 2"
    by code_simp+
  note t = counter_advances_whatever_the_outcome [where T = tool_late
      and T' = "\<lambda>c e f. (Completed, e, f)" and w = world_browser and home = "''/home/u''"
      and rows = "[[''id (A)''], [''abcdefghijk'', ''0:01-0:02''], [''abcdefghijk'', ''0:03-0:04'']]"
      and row = "[''abcdefghijk'', ''0:01-0:02'']" and st = state_A and a = 1 and b = 2
      and hc = False]
  note r = t [THEN conjunct1, THEN mp, OF h, THEN conjunct1]
  have b: "video_id_counts
        (case fst (process_row tool_late False state_A [''abcdefghijk'', ''0:01-0:02'']
                     world_browser) of
           Inr s \<Rightarrow> s | Inl e \<Rightarrow> state_A) ''abcdefghijk'' = Some 2"
    unfolding r n by simp
  note c = t [THEN conjunct2, THEN conjunct1]
  from h have h': "active state_A" "data_row_ok [''abcdefghijk'', ''0:01-0:02'']"
    "row_times [''abcdefghijk'', ''0:01-0:02''] = Inr (1, 2)" by blast+
  show ?thesis by (intro conjI a h' b c)
qed

text \<open>
  Claim C7.  A row yields a Job only if it is not a header row, a category is active, the
  row has at least two cells that are non-empty after trimming (its first two) and
  its first cell trims to exactly 11 characters.  Rows that come before the first header
  row yield no Job: with or without them the run has the same Jobs.
\<close>

theorem job_only_from_valid_data_row:
  "(jobs_of (new_events w (snd (process_row T hc st row w))) \<noteq> [] \<longrightarrow>
      \<not> is_header_row row \<and> active st \<and> data_row_ok row
      \<and> 2 \<le> length (filter (\<lambda>c. strip c \<noteq> []) row)
      \<and> length (strip (row ! 0)) = 11)
   \<and> ((\<forall>r \<in> set pre. \<not> is_header_row r) \<longrightarrow>
        jobs_of (new_events w (snd (main T home (pre @ rest) w)))
          = jobs_of (new_events w (snd (main T home rest w))))"
proof -
  have a: "\<not> is_header_row row \<and> active st \<and> data_row_ok row
      \<and> 2 \<le> length (filter (\<lambda>c. strip c \<noteq> []) row)
      \<and> length (strip (row ! 0)) = 11"
    if "jobs_of (new_events w (snd (process_row T hc st row w))) \<noteq> []"
  proof -
    from that have "row_jobs hc st row \<noteq> []" by (simp add: process_row_jobs)
    from row_jobs_nonempty [OF this] show ?thesis
      using two_nonempty_cells [of row] by (simp add: data_row_ok_def)
  qed
  have b: "jobs_of (new_events w (snd (main T home (pre @ rest) w)))
          = jobs_of (new_events w (snd (main T home rest w)))"
    if "\<forall>r \<in> set pre. \<not> is_header_row r"
    using plan_inactive(1) [OF not_active_cleared(2) that] by (simp add: main_jobs)
  from a b show ?thesis by blast
qed

text \<open>
  Claim C7 at a data row inside a category, at a data row before any header, and at a
  reference of ten characters.
\<close>

theorem job_only_from_valid_data_row_witness:
  "jobs_of (new_events world_cookies
      (snd (process_row tool_nothing True state_A [''abcdefghijk'', ''0:01-0:02''] world_cookies)))
     \<noteq> []
   \<and> active state_A \<and> data_row_ok [''abcdefghijk'', ''0:01-0:02'']
   \<and> jobs_of (new_events world_cookies (snd (main tool_nothing ''/home/u''
        ([[''abcdefghijk'', ''0:01-0:02'']] @ [[''id (A)'']]) world_cookies))) = []
   \<and> jobs_of (new_events world_cookies
      (snd (process_row tool_nothing True state_A [''abcdefghij'', ''0:01-0:02''] world_cookies)))
     = []"
proof -
  have a: "jobs_of (new_events world_cookies
      (snd (process_row tool_nothing True state_A [''abcdefghijk'', ''0:01-0:02''] world_cookies)))
     \<noteq> []" by code_simp
  have b: "\<forall>r \<in> set [[''abcdefghijk'', ''0:01-0:02'']]. \<not> is_header_row r" by code_simp
  have c: "jobs_of (new_events world_cookies (snd (main tool_nothing ''/home/u''
        [[''id (A)'']] world_cookies))) = []" by code_simp
  have d: "jobs_of (new_events world_cookies
      (snd (process_row tool_nothing True state_A [''abcdefghij'', ''0:01-0:02''] world_cookies)))
     = []" by code_simp
  note t = job_only_from_valid_data_row [where w = world_cookies and T = tool_nothing
      and hc = True and st = state_A and row = "[''abcdefghijk'', ''0:01-0:02'']"
      and pre = "[[''abcdefghijk'', ''0:01-0:02'']]" and rest = "[[''id (A)'']]"
      and home = "''/home/u''"]
  from t a have e: "active state_A" "data_row_ok [''abcdefghijk'', ''0:01-0:02'']" by blast+
  from t b c have f: "jobs_of (new_events world_cookies (snd (main tool_nothing ''/home/u''
        ([[''abcdefghijk'', ''0:01-0:02'']] @ [[''id (A)'']]) world_cookies))) = []"
    by simp
  show ?thesis by (intro conjI a e f d)
qed

text \<open>
  Claim C5, as amended.  A header row whose first cell holds the marker but no
  parenthesized substring leaves the output folder and the segment counters as they
  are and clears the category label; it prints nothing and yields no Job.  The rows after
  it, up to the next header row, are read and skipped: they yield no Job.
\<close>

theorem header_without_label_clears_prefix:
  "is_header_row row \<and> extract_prefix_from_header (row ! 0) = None \<longrightarrow>
     process_row T hc st row w = (Inr (st\<lparr>prefix := None\<rparr>), w)
     \<and> ((\<forall>r \<in> set rest. \<not> is_header_row r) \<longrightarrow>
          fst (process_rows T hc st (row # rest) w) = Exit_ok
          \<and> fst (snd (process_rows T hc st (row # rest) w)) = st\<lparr>prefix := None\<rparr>
          \<and> jobs_of (new_events w (snd (snd (process_rows T hc st (row # rest) w)))) = []
          \<and> rows_read (new_events w (snd (snd (process_rows T hc st (row # rest) w))))
               = row # rest)"
proof (intro impI conjI)
  assume h: "is_header_row row \<and> extract_prefix_from_header (row ! 0) = None"
  then show "process_row T hc st row w = (Inr (st\<lparr>prefix := None\<rparr>), w)"
    by (simp add: process_row_header)
  assume n: "\<forall>r \<in> set rest. \<not> is_header_row r"
  have rs: "row_step st row = Inr (st\<lparr>prefix := None\<rparr>)" "row_jobs hc st row = []"
    using h by (simp_all add: row_step_header)
  note pi = plan_inactive [OF not_active_cleared(1) [of st] n, where rest = "[]", simplified]
  have p: "plan_exit st (row # rest) = Exit_ok" "plan_state st (row # rest) = st\<lparr>prefix := None\<rparr>"
    "plan_jobs hc st (row # rest) = []" "plan_read st (row # rest) = Suc (length rest)"
    using rs pi by simp_all
  obtain evs w' where r:
    "process_rows T hc st (row # rest) w = (plan_exit st (row # rest), plan_state st (row # rest), w')"
    "trace w' = trace w @ evs"
    "jobs_of evs = plan_jobs hc st (row # rest)"
    "rows_read evs = take (plan_read st (row # rest)) (row # rest)"
    using process_rows_plan [of T hc st "row # rest" w] by blast
  show "fst (process_rows T hc st (row # rest) w) = Exit_ok"
    and "fst (snd (process_rows T hc st (row # rest) w)) = st\<lparr>prefix := None\<rparr>"
    and "jobs_of (new_events w (snd (snd (process_rows T hc st (row # rest) w)))) = []"
    and "rows_read (new_events w (snd (snd (process_rows T hc st (row # rest) w)))) = row # rest"
    unfolding r(1) using r(2-) p by (simp_all add: new_events_def)
qed

text \<open>Claim C5, as amended, at a header with an unclosed parenthesis inside category \<open>A\<close>.\<close>

theorem header_without_label_clears_prefix_witness:
  "is_header_row [''id (SC'', ''time''] \<and> extract_prefix_from_header ''id (SC'' = None
   \<and> prefix (fst (snd (process_rows tool_tolerant True state_A
        [[''id (SC'', ''time''], [''abcdefghijk'', ''0:01-0:02'']] world_cookies))) = None
   \<and> output_folder (fst (snd (process_rows tool_tolerant True state_A
        [[''id (SC'', ''time''], [''abcdefghijk'', ''0:01-0:02'']] world_cookies)))
       = Some (wav_dir @ [''A''])
   \<and> jobs_of (new_events world_cookies (snd (snd (process_rows tool_tolerant True state_A
        [[''id (SC'', ''time''], [''abcdefghijk'', ''0:01-0:02'']] world_cookies)))) = []"
proof -
  have h: "is_header_row [''id (SC'', ''time'']
       \<and> extract_prefix_from_header ([''id (SC'', ''time''] ! 0) = None" by code_simp
  have n: "\<forall>r \<in> set [[''abcdefghijk'', ''0:01-0:02'']]. \<not> is_header_row r" by code_simp
  note t = header_without_label_clears_prefix [where row = "[''id (SC'', ''time'']"
      and rest = "[[''abcdefghijk'', ''0:01-0:02'']]" and T = tool_tolerant and hc = True
      and st = state_A and w = world_cookies]
  from t h n have s: "fst (snd (process_rows tool_tolerant True state_A
        [[''id (SC'', ''time''], [''abcdefghijk'', ''0:01-0:02'']] world_cookies))
       = state_A\<lparr>prefix := None\<rparr>"
    and j: "jobs_of (new_events world_cookies (snd (snd (process_rows tool_tolerant True state_A
        [[''id (SC'', ''time''], [''abcdefghijk'', ''0:01-0:02'']] world_cookies)))) = []"
    by blast+
  show ?thesis
    using h j unfolding s by (simp add: state_A_def)
qed

text \<open>
  Claim C5 as stated fails: after the header of category \<open>A\<close> and a header without label, a
  data row yields no Job, while without the second header it yields one.
\<close>

theorem header_without_label_counterexample:
  "is_header_row [''id (SC'', ''time''] \<and> extract_prefix_from_header ''id (SC'' = None
   \<and> jobs_of (new_events world_cookies (snd (main tool_tolerant ''/home/u''
        [[''id (A)''], [''id (SC'', ''time''], [''abcdefghijk'', ''0:01-0:02'']] world_cookies)))
      = []
   \<and> length (jobs_of (new_events world_cookies (snd (main tool_tolerant ''/home/u''
        [[''id (A)''], [''abcdefghijk'', ''0:01-0:02'']] world_cookies)))) = 1"
  by code_simp






end
